theory Spec2Isabelle
  imports Complex_Main "HOL-Library.Multiset"
begin

section \<open>JavaScript strings and the regular expressions of scraper.ts\<close>

text \<open>
  A JavaScript string is a sequence of UTF-16 code units, and \<open>length\<close>, \<open>[a-z]\<close>,
  \<open>\s\<close> and the dashes of the source all work on code units. A code unit is a natural
  number here; \<open>js\<close> turns an ASCII literal into its code units.
\<close>

type_synonym jschar = nat
type_synonym jsstring = "nat list"

definition js :: "string \<Rightarrow> jsstring" where
  "js s = map of_char s"

definition is_lower :: "jschar \<Rightarrow> bool" where
  "is_lower c = (97 \<le> c \<and> c \<le> 122)"

definition is_upper :: "jschar \<Rightarrow> bool" where
  "is_upper c = (65 \<le> c \<and> c \<le> 90)"

definition is_digit :: "jschar \<Rightarrow> bool" where
  "is_digit c = (48 \<le> c \<and> c \<le> 57)"

text \<open>\<open>\w\<close> without the unicode flag: letters, digits and the underscore.\<close>

definition is_word :: "jschar \<Rightarrow> bool" where
  "is_word c = (is_lower c \<or> is_upper c \<or> is_digit c \<or> c = 95)"

text \<open>
  \<open>\s\<close>, which is also what \<open>trim()\<close> removes: tab, line feed, vertical tab, form feed,
  carriage return, space, U+00A0, U+1680, U+2000 to U+200A, U+2028, U+2029, U+202F,
  U+205F, U+3000 and U+FEFF.
\<close>

definition is_space :: "jschar \<Rightarrow> bool" where
  "is_space c = ((9 \<le> c \<and> c \<le> 13) \<or> c = 32 \<or> c = 160 \<or> c = 5760 \<or>
     (8192 \<le> c \<and> c \<le> 8202) \<or> c = 8232 \<or> c = 8233 \<or> c = 8239 \<or>
     c = 8287 \<or> c = 12288 \<or> c = 65279)"

text \<open>
  \<open>toLowerCase()\<close> on the letters A to Z. The case table of the other code units belongs
  to the JavaScript runtime; they are left as they are.
\<close>

definition toLowerCase :: "jsstring \<Rightarrow> jsstring" where
  "toLowerCase s = map (\<lambda>c. if is_upper c then c + 32 else c) s"

definition startsWith :: "jsstring \<Rightarrow> jsstring \<Rightarrow> bool" where
  "startsWith s pat = (take (length pat) s = pat)"

text \<open>\<open>s.includes(pat)\<close>.\<close>

fun includes_js :: "jsstring \<Rightarrow> jsstring \<Rightarrow> bool" where
  "includes_js [] pat = (pat = [])"
| "includes_js (c # cs) pat = (startsWith (c # cs) pat \<or> includes_js cs pat)"

definition trim :: "jsstring \<Rightarrow> jsstring" where
  "trim s = rev (dropWhile is_space (rev (dropWhile is_space s)))"

text \<open>
  \<open>s.replace(/re/g, r)\<close>: the string is scanned from the left; where the expression
  matches, the match is replaced and the scan goes on behind it, elsewhere the code unit
  is kept. A matcher is one regular expression with its replacement: given the code unit
  before the position (for \<open>\b\<close>) and the rest of the string, it answers \<open>Some (k, r)\<close>
  when the expression matches the first \<open>Suc k\<close> code units, \<open>r\<close> being what replaces
  them. No expression of the source matches the empty string.
\<close>

type_synonym matcher = "jschar option \<Rightarrow> jsstring \<Rightarrow> (nat \<times> jsstring) option"

function replace_from :: "matcher \<Rightarrow> jschar option \<Rightarrow> jsstring \<Rightarrow> jsstring" where
  "replace_from m p [] = []"
| "replace_from m p (c # cs) =
     (case m p (c # cs) of
        None \<Rightarrow> c # replace_from m (Some c) cs
      | Some (k, r) \<Rightarrow> r @ replace_from m (Some (last (c # take k cs))) (drop k cs))"
  by pat_completeness auto
termination
  by (relation "measure (\<lambda>(m, p, s). length s)") auto

definition replace_all :: "matcher \<Rightarrow> jsstring \<Rightarrow> jsstring" where
  "replace_all m s = replace_from m None s"

text \<open>\<open>/x/g\<close> for one code unit (or one class) \<open>x\<close>, replaced by \<open>r\<close>.\<close>

definition re_unit :: "(jschar \<Rightarrow> bool) \<Rightarrow> jsstring \<Rightarrow> matcher" where
  "re_unit P r = (\<lambda>p s. case s of c # _ \<Rightarrow> if P c then Some (0, r) else None | [] \<Rightarrow> None)"

text \<open>\<open>/(A)(B)/g\<close> for two classes, replaced by \<open>'$1 $2'\<close>.\<close>

definition re_pair :: "(jschar \<Rightarrow> bool) \<Rightarrow> (jschar \<Rightarrow> bool) \<Rightarrow> matcher" where
  "re_pair A B = (\<lambda>p s. case s of
      a # b # _ \<Rightarrow> if A a \<and> B b then Some (1, [a, 32, b]) else None
    | _ \<Rightarrow> None)"

text \<open>
  \<open>/([a-z])([a-z][a-z][a-z]+)/g\<close> and \<open>/([a-z])([a-z]{3,})/g\<close> with a callback
  \<open>(match, p1, p2)\<close>: the quantifier is greedy, so \<open>p2\<close> is the whole rest of the run of
  lowercase letters.
\<close>

definition re_run :: "(jsstring \<Rightarrow> jschar \<Rightarrow> jsstring \<Rightarrow> jsstring) \<Rightarrow> matcher" where
  "re_run f = (\<lambda>p s. case s of
      c # cs \<Rightarrow>
        (let p2 = takeWhile is_lower cs in
         if is_lower c \<and> 3 \<le> length p2 then Some (length p2, f (c # p2) c p2) else None)
    | [] \<Rightarrow> None)"

text \<open>\<open>/literal/g\<close> for a fixed, non-empty text.\<close>

definition re_lit :: "jsstring \<Rightarrow> jsstring \<Rightarrow> matcher" where
  "re_lit pat r = (\<lambda>p s. if pat \<noteq> [] \<and> startsWith s pat then Some (length pat - 1, r) else None)"

text \<open>\<open>/\s+/g\<close> replaced by one space.\<close>

definition re_spaces :: matcher where
  "re_spaces = (\<lambda>p s. case s of
      c # cs \<Rightarrow> if is_space c then Some (length (takeWhile is_space cs), [32]) else None
    | [] \<Rightarrow> None)"

section \<open>The text chain evaluated in the page: cleanText\<close>

definition commonWords :: "jsstring list" where
  "commonWords = map js [''cold'', ''genital'', ''eye'', ''skin'', ''oral'', ''nasal'', ''ear'',
     ''hand'', ''foot'', ''back'', ''chest'', ''head'', ''neck'', ''arm'', ''leg'']"

text \<open>The callback of the run expression in \<open>cleanText\<close>.\<close>

definition split_common :: "jsstring \<Rightarrow> jschar \<Rightarrow> jsstring \<Rightarrow> jsstring" where
  "split_common match p1 p2 =
     (if 4 \<le> length p2 \<and> take 1 p2 = toLowerCase (take 1 p2) \<and>
         (\<exists>word \<in> set commonWords. startsWith (toLowerCase p2) word)
      then p1 # 32 # p2 else match)"

text \<open>
  The three copies of \<open>cleanText\<close> inside \<open>page.evaluate\<close> (in scrapeMedicineDetails,
  extractSectionContent and extractCommonQuestions) are the same text. \<open>None\<close> is
  \<open>undefined\<close>, returned for a missing or empty text.
\<close>

definition cleanText_passes :: "(jsstring \<Rightarrow> jsstring) list" where
  "cleanText_passes =
    [replace_all (re_unit (\<lambda>c. c = 160) [32]),
     replace_all (re_unit (\<lambda>c. c = 8211) [32]),
     replace_all (re_unit (\<lambda>c. c = 8212) [32]),
     replace_all (re_pair (\<lambda>c. c = 46 \<or> c = 33 \<or> c = 63 \<or> c = 58) is_upper),
     replace_all (re_pair is_lower is_upper),
     replace_all (re_pair is_lower is_digit),
     replace_all (re_pair is_digit is_upper),
     replace_all (re_run split_common),
     replace_all (re_lit (js ''cold soresgenital herpeseye infections'')
                         (js ''cold sores genital herpes eye infections'')),
     replace_all (re_lit (js ''cold soresgenital herpes'') (js ''cold sores genital herpes'')),
     replace_all (re_lit (js ''genital herpeseye infections'') (js ''genital herpes eye infections'')),
     replace_all (re_lit (js ''medicinehave'') (js ''medicine have'')),
     replace_all (re_lit (js ''y ears'') (js ''years'')),
     replace_all (re_lit (js ''oldare'') (js ''old are'')),
     replace_all (re_lit (js ''problemsare'') (js ''problems are'')),
     replace_all (re_lit (js ''breastfeeding.'') (js ''breastfeeding.'')),
     replace_all (re_pair (\<lambda>c. c = 58) is_lower),
     replace_all (re_pair (\<lambda>c. c = 58) is_lower),
     replace_all re_spaces,
     trim]"

text \<open>\<open>text.replace(...).replace(...)\<close>: the passes run from the first to the last.\<close>

definition run_passes :: "(jsstring \<Rightarrow> jsstring) list \<Rightarrow> jsstring \<Rightarrow> jsstring" where
  "run_passes ps s = fold (\<lambda>f t. f t) ps s"

definition cleanText :: "jsstring option \<Rightarrow> jsstring option" where
  "cleanText text = (case text of
      None \<Rightarrow> None
    | Some t \<Rightarrow> if t = [] then None else Some (run_passes cleanText_passes t))"

section \<open>The text chain of the scraper object: smartCleanText and enhanceGrammar\<close>

text \<open>
  \<open>wordList\<close> is read from word-list.txt when the browser is initialised; the file is
  not part of the sources at hand, so the word list is a parameter \<open>wl\<close> of the chain.
  When the file cannot be read, \<open>loadWordList\<close> falls back to the list below.
\<close>

definition fallbackWordList :: "jsstring set" where
  "fallbackWordList = set (map js
    [''about'', ''above'', ''after'', ''again'', ''along'', ''among'', ''around'', ''before'',
     ''below'', ''between'', ''during'', ''except'', ''inside'', ''outside'', ''through'',
     ''under'', ''within'', ''without'',
     ''could'', ''would'', ''should'', ''might'', ''shall'', ''ought'', ''cannot'', ''don't'',
     ''won't'', ''can't'', ''isn't'', ''aren't'', ''wasn't'', ''weren't'', ''hasn't'',
     ''haven't'', ''hadn't'', ''doesn't'', ''didn't'',
     ''years'', ''months'', ''weeks'', ''days'', ''hours'', ''minutes'', ''seconds'', ''times'',
     ''places'', ''things'', ''people'', ''children'', ''women'', ''men'', ''adults'',
     ''patients'', ''doctors'', ''nurses'',
     ''medicine'', ''medicines'', ''tablets'', ''tablet'', ''liquid'', ''cream'', ''ointment'',
     ''injection'', ''injections'', ''drops'', ''spray'', ''sprays'', ''capsules'', ''capsule'',
     ''problems'', ''problem'', ''issues'', ''issue'', ''conditions'', ''condition'',
     ''diseases'', ''disease'', ''symptoms'', ''symptom'', ''effects'', ''effect'',
     ''reactions'', ''reaction'',
     ''pregnant'', ''pregnancy'', ''breastfeeding'', ''breastfeed'', ''fertility'', ''fertile'',
     ''conception'', ''contraception'', ''contraceptive'', ''contraceptives'',
     ''allergic'', ''allergy'', ''allergies'', ''sensitive'', ''sensitivity'', ''intolerance'',
     ''intolerant'', ''reaction'', ''reactions'',
     ''kidney'', ''liver'', ''heart'', ''lung'', ''lungs'', ''brain'', ''blood'', ''skin'',
     ''bone'', ''bones'', ''muscle'', ''muscles'', ''joint'', ''joints'', ''transplant'',
     ''transplants''])"

text \<open>The callback of the run expression in \<open>smartCleanText\<close>.\<close>

definition split_known :: "jsstring set \<Rightarrow> jsstring \<Rightarrow> jschar \<Rightarrow> jsstring \<Rightarrow> jsstring" where
  "split_known wl match p1 p2 = (if toLowerCase p2 \<in> wl then p1 # 32 # p2 else match)"

definition smartCleanText_passes :: "jsstring set \<Rightarrow> (jsstring \<Rightarrow> jsstring) list" where
  "smartCleanText_passes wl =
    [replace_all (re_unit (\<lambda>c. c = 160) [32]),
     replace_all (re_unit (\<lambda>c. c = 8211 \<or> c = 8212) [32]),
     replace_all (re_pair (\<lambda>c. c = 46 \<or> c = 33 \<or> c = 63 \<or> c = 58) is_upper),
     replace_all (re_pair is_lower is_upper),
     replace_all (re_pair is_lower is_digit),
     replace_all (re_pair is_digit is_upper),
     replace_all (re_pair (\<lambda>c. c = 58) is_lower),
     replace_all (re_run (split_known wl)),
     replace_all re_spaces,
     trim]"

definition smartCleanText :: "jsstring set \<Rightarrow> jsstring \<Rightarrow> jsstring" where
  "smartCleanText wl text = (if text = [] then text else run_passes (smartCleanText_passes wl) text)"

text \<open>
  \<open>/([a-z])\s+([A-Z][a-z])/g\<close> with its callback, which leaves the match alone when it
  holds a full stop or a colon and otherwise puts \<open>'. '\<close> between the two groups.
\<close>

definition add_period :: "jsstring \<Rightarrow> jschar \<Rightarrow> jsstring \<Rightarrow> jsstring" where
  "add_period match p1 p2 =
     (if includes_js match [46] \<or> includes_js match [58] then match else p1 # js ''. '' @ p2)"

definition re_period :: matcher where
  "re_period = (\<lambda>p s. case s of
      a # cs \<Rightarrow>
        (let ws = takeWhile is_space cs in
         case dropWhile is_space cs of
           u # l # _ \<Rightarrow>
             if is_lower a \<and> ws \<noteq> [] \<and> is_upper u \<and> is_lower l
             then Some (length ws + 2, add_period (a # ws @ [u, l]) a [u, l]) else None
         | _ \<Rightarrow> None)
    | [] \<Rightarrow> None)"

text \<open>
  \<open>/([a-z])\s+(but|however|therefore|moreover|furthermore)\s+([a-z])/g\<close>, replaced by
  \<open>'$1, $2 $3'\<close>. The alternatives are tried in their order; \<open>after_word\<close> is
  \<open>\s+([a-z])\<close> behind the word.
\<close>

definition conjunctions :: "jsstring list" where
  "conjunctions = map js [''but'', ''however'', ''therefore'', ''moreover'', ''furthermore'']"

definition after_word :: "jsstring \<Rightarrow> (nat \<times> jschar) option" where
  "after_word s =
     (case dropWhile is_space s of
        b # _ \<Rightarrow> if takeWhile is_space s \<noteq> [] \<and> is_lower b
                 then Some (length (takeWhile is_space s), b) else None
      | [] \<Rightarrow> None)"

definition re_comma :: matcher where
  "re_comma = (\<lambda>p s. case s of
      a # cs \<Rightarrow>
        (let ws = takeWhile is_space cs; rest = dropWhile is_space cs in
         if is_lower a \<and> ws \<noteq> [] then
           (case find (\<lambda>w. startsWith rest w \<and> after_word (drop (length w) rest) \<noteq> None)
                      conjunctions of
              Some w \<Rightarrow>
                (case after_word (drop (length w) rest) of
                   Some (n, b) \<Rightarrow> Some (length ws + length w + n + 1, a # js '', '' @ w @ [32, b])
                 | None \<Rightarrow> None)
            | None \<Rightarrow> None)
         else None)
    | [] \<Rightarrow> None)"

text \<open>\<open>\b\<close>: exactly one of the code units on the two sides is a word character.\<close>

definition word_boundary :: "jschar option \<Rightarrow> jsstring \<Rightarrow> bool" where
  "word_boundary p s =
     ((case p of None \<Rightarrow> False | Some c \<Rightarrow> is_word c) \<noteq>
      (case s of [] \<Rightarrow> False | c # _ \<Rightarrow> is_word c))"

text \<open>\<open>/\bits\s+([a-z])/g\<close>, replaced by \<open>"it's $1"\<close>.\<close>

definition re_its :: matcher where
  "re_its = (\<lambda>p s.
     if word_boundary p s \<and> startsWith s (js ''its'') then
       (case after_word (drop 3 s) of
          Some (n, b) \<Rightarrow> Some (n + 3, js ''it's '' @ [b])
        | None \<Rightarrow> None)
     else None)"

text \<open>\<open>s.replace(pat, r)\<close> with a string \<open>pat\<close>: only the first occurrence.\<close>

fun replace_first :: "jsstring \<Rightarrow> jsstring \<Rightarrow> jsstring \<Rightarrow> jsstring" where
  "replace_first [] pat r = (if pat = [] then r else [])"
| "replace_first (c # cs) pat r =
     (if startsWith (c # cs) pat then r @ drop (length pat) (c # cs)
      else c # replace_first cs pat r)"

text \<open>
  \<open>/\byou\s+([a-z])/g\<close> with its callback \<open>(match, p1)\<close>: the group \<open>p1\<close> is the one
  letter behind the spaces, and it is looked up in the list of auxiliary verbs.
\<close>

definition auxiliaries :: "jsstring list" where
  "auxiliaries = map js [''are'', ''have'', ''can'', ''should'', ''will'', ''may'']"

definition fix_you :: "jsstring \<Rightarrow> jsstring \<Rightarrow> jsstring" where
  "fix_you match p1 =
     (if p1 \<in> set auxiliaries
      then replace_first match (js ''you '' @ p1) (js ''you're '' @ p1) else match)"

definition re_you :: matcher where
  "re_you = (\<lambda>p s.
     if word_boundary p s \<and> startsWith s (js ''you'') then
       (case after_word (drop 3 s) of
          Some (n, b) \<Rightarrow> Some (n + 3, fix_you (take (n + 4) s) [b])
        | None \<Rightarrow> None)
     else None)"

definition enhanceGrammar_passes :: "(jsstring \<Rightarrow> jsstring) list" where
  "enhanceGrammar_passes =
    [replace_all re_period,
     replace_all re_comma,
     replace_all re_its,
     replace_all re_you,
     replace_all re_spaces,
     trim]"

definition enhanceGrammar :: "jsstring set \<Rightarrow> jsstring \<Rightarrow> jsstring" where
  "enhanceGrammar wl text =
     (if text = [] then text else run_passes enhanceGrammar_passes (smartCleanText wl text))"

section \<open>The Semaphore class\<close>

text \<open>
  \<open>waitQueue\<close> holds the \<open>resolve\<close> callbacks of the suspended callers; a callback is
  identified here with its caller. \<open>acquire\<close> answers whether the caller goes on at once
  (\<open>True\<close>) or is suspended (\<open>False\<close>); \<open>release\<close> answers which caller it woke.
\<close>

record 'c semaphore =
  permits :: int
  waitQueue :: "'c list"

definition Semaphore :: "int \<Rightarrow> 'c semaphore" where
  "Semaphore n = \<lparr>permits = n, waitQueue = []\<rparr>"

definition acquire :: "'c \<Rightarrow> 'c semaphore \<Rightarrow> bool \<times> 'c semaphore" where
  "acquire c s =
     (if 0 < permits s then (True, s\<lparr>permits := permits s - 1\<rparr>)
      else (False, s\<lparr>waitQueue := waitQueue s @ [c]\<rparr>))"

definition release :: "'c semaphore \<Rightarrow> 'c option \<times> 'c semaphore" where
  "release s =
     (let s1 = s\<lparr>permits := permits s + 1\<rparr> in
      case waitQueue s1 of
        [] \<Rightarrow> (None, s1)
      | next # rest \<Rightarrow> (Some next, s1\<lparr>waitQueue := rest, permits := permits s1 - 1\<rparr>))"

text \<open>A sequence of calls on one semaphore, and what each call did.\<close>

datatype 'c sem_call = Acquire 'c | Release

datatype 'c sem_event = Proceeded 'c | Enqueued 'c | Woke 'c | Woke_nobody

fun sem_run :: "'c semaphore \<Rightarrow> 'c sem_call list \<Rightarrow> 'c sem_event list \<times> 'c semaphore" where
  "sem_run s [] = ([], s)"
| "sem_run s (Acquire c # calls) =
     (case acquire c s of (granted, s') \<Rightarrow>
        (case sem_run s' calls of (evs, s'') \<Rightarrow>
           ((if granted then Proceeded c else Enqueued c) # evs, s'')))"
| "sem_run s (Release # calls) =
     (case release s of (woken, s') \<Rightarrow>
        (case sem_run s' calls of (evs, s'') \<Rightarrow>
           ((case woken of Some c \<Rightarrow> Woke c | None \<Rightarrow> Woke_nobody) # evs, s'')))"

fun enqueued :: "'c sem_event list \<Rightarrow> 'c list" where
  "enqueued [] = []"
| "enqueued (Enqueued c # evs) = c # enqueued evs"
| "enqueued (_ # evs) = enqueued evs"

fun woken :: "'c sem_event list \<Rightarrow> 'c list" where
  "woken [] = []"
| "woken (Woke c # evs) = c # woken evs"
| "woken (_ # evs) = woken evs"

section \<open>The data of types.ts and the pages\<close>

record Section =
  paragraphTitle :: jsstring
  paragraphText :: jsstring

text \<open>MedicineSection; \<open>url\<close> is optional in the interface.\<close>

record MedicineSection =
  sections :: "Section list"
  url :: "jsstring option"

record MedicineInfo =
  name :: jsstring
  medicine_url :: jsstring
  dateCaptured :: "jsstring option"
  otherBrandNames :: "jsstring option"
  summary :: "jsstring option"
  about :: MedicineSection
  eligibility :: MedicineSection
  howAndWhenToTake :: MedicineSection
  sideEffects :: MedicineSection
  pregnancyBreastFeedingFertility :: MedicineSection
  takingWithOther :: MedicineSection
  commonQuestions :: MedicineSection
  relatedConditions :: "jsstring list option"

text \<open>An entry of the catalog, \<open>{ name: name || null, url }\<close>.\<close>

record link =
  linkName :: "jsstring option"
  linkUrl :: jsstring

record ScrapingResult =
  totalMedicines :: nat
  scrapedMedicines :: nat
  failedMedicines :: "jsstring option list"
  medicines :: "MedicineInfo list"
  scrapedAt :: jsstring

text \<open>
  An anchor of the index page, as \<open>getMedicineLinks\<close> reads it: the \<open>href\<close> attribute,
  the text content, and what \<open>new URL(href, location.href)\<close> makes of the attribute, its
  \<open>pathname\<close> and its \<open>href\<close> (\<open>None\<close> when the constructor throws).
\<close>

record anchor =
  href :: "jsstring option"
  textContent :: "jsstring option"
  resolved :: "(jsstring \<times> jsstring) option"

text \<open>
  A loaded page is what it answers to the queries of the scraper:
  \<^item> \<open>anchors\<close>: \<open>a[href]\<close>, in document order;
  \<^item> \<open>heading1\<close>: the text of the first \<open>h1, .nhsuk-heading-xl\<close>, if there is one;
  \<^item> \<open>caption\<close>: the text of the first \<open>.nhsuk-caption-xl\<close>;
  \<^item> \<open>mainParagraphs\<close>: the texts of \<open>main p, .nhsuk-main-wrapper p, .nhsuk-width-container p\<close>;
  \<^item> \<open>metaDescription\<close>: the \<open>content\<close> of \<open>meta[name="description"]\<close>;
  \<^item> \<open>conditionLinks\<close>: the texts of \<open>a[href*="/conditions/"]\<close>;
  \<^item> \<open>medicineAnchors\<close>: \<open>href\<close> and text of each \<open>a[href*="/medicines/"]\<close>;
  \<^item> \<open>headings\<close>: for each \<open>h1\<close> to \<open>h6\<close> in document order its text and the texts of
    the sibling elements behind it, up to the next sibling that is a heading;
  \<^item> \<open>detailsElements\<close>: for each \<open>details.nhsuk-details\<close> the texts of its
    \<open>.nhsuk-details__summary-text\<close> and \<open>.nhsuk-details__text\<close>, where it has them;
  \<^item> \<open>now\<close>: \<open>new Date().toISOString()\<close> at the time of the evaluation.
\<close>

record document =
  anchors :: "anchor list"
  heading1 :: "jsstring option"
  caption :: "jsstring option"
  mainParagraphs :: "jsstring list"
  metaDescription :: "jsstring option"
  conditionLinks :: "jsstring list"
  medicineAnchors :: "(jsstring \<times> jsstring) list"
  headings :: "(jsstring \<times> jsstring list) list"
  detailsElements :: "(jsstring option \<times> jsstring option) list"
  now :: jsstring

datatype error = Timeout | NetworkError | EvaluateError | InvalidURL | WriteError

text \<open>
  The four functions that load a page do it in one \<open>try\<close> block each: \<open>newPage\<close>,
  \<open>goto\<close>, \<open>evaluate\<close>. What the block ends in, the page or the error thrown, is the
  answer of the browser. One item is loaded at up to nine places, and two loads of one
  address need not end alike, so the answer depends on the place as well as on the address.
\<close>

datatype linkKey =
  About | WhoCanTake | HowAndWhenToTake | SideEffects | Pregnancy | Interactions | CommonQuestions

datatype site = Detail | SectionLinks | SectionPage linkKey

type_synonym pages = "site \<Rightarrow> jsstring \<Rightarrow> error + document"

text \<open>\<open>a || b\<close> on strings that may be undefined or null.\<close>

definition or_else :: "jsstring option \<Rightarrow> jsstring \<Rightarrow> jsstring" where
  "or_else a b = (case a of None \<Rightarrow> b | Some t \<Rightarrow> if t = [] then b else t)"

text \<open>A string in a condition: undefined, null and the empty string count as false.\<close>

definition truthy :: "jsstring option \<Rightarrow> bool" where
  "truthy a = (case a of None \<Rightarrow> False | Some t \<Rightarrow> t \<noteq> [])"

text \<open>\<open>s.indexOf(pat)\<close>, \<open>None\<close> for -1.\<close>

fun indexOf :: "jsstring \<Rightarrow> jsstring \<Rightarrow> nat option" where
  "indexOf [] pat = (if pat = [] then Some 0 else None)"
| "indexOf (c # cs) pat =
     (if startsWith (c # cs) pat then Some 0 else map_option Suc (indexOf cs pat))"

section \<open>getMedicineLinks\<close>

definition isMed :: "anchor \<Rightarrow> error + bool" where
  "isMed a =
     (if \<not> truthy (href a) then Inr False
      else case resolved a of
        None \<Rightarrow> Inl InvalidURL
      | Some (pathname, _) \<Rightarrow>
          (case indexOf pathname (js ''/medicines/'') of
             None \<Rightarrow> Inr False
           | Some idx \<Rightarrow>
               (let tail = drop (idx + length (js ''/medicines/'')) pathname in
                Inr (tail \<noteq> [] \<and> tail \<noteq> js ''/'' \<and> \<not> startsWith tail (js ''#'')))))"

text \<open>\<open>anchors.filter(isMed)\<close>; an exception in \<open>isMed\<close> ends the evaluation.\<close>

fun filter_isMed :: "anchor list \<Rightarrow> error + anchor list" where
  "filter_isMed [] = Inr []"
| "filter_isMed (a # as) =
     (case isMed a of
        Inl e \<Rightarrow> Inl e
      | Inr b \<Rightarrow>
          (case filter_isMed as of
             Inl e \<Rightarrow> Inl e
           | Inr r \<Rightarrow> Inr (if b then a # r else r)))"

text \<open>\<open>(a.textContent || '').trim().replace(/\s+/g, ' ')\<close>.\<close>

definition anchor_name :: "anchor \<Rightarrow> jsstring" where
  "anchor_name a = replace_all re_spaces (trim (or_else (textContent a) []))"

definition isValid :: "jsstring \<Rightarrow> bool" where
  "isValid n =
     (n \<noteq> js ''Medicines A to Z'' \<and> \<not> includes_js n (js ''Overview -'') \<and>
      \<not> includes_js n (js ''see '') \<and> 1 < length n \<and> length n < 100)"

text \<open>
  The \<open>Map\<close> keyed by the absolute address, in the order of insertion: \<open>set.set\<close> on a
  key that is there replaces the value where it stands, on a new key it appends.
\<close>

type_synonym linkMap = "(jsstring \<times> link) list"

fun map_set :: "linkMap \<Rightarrow> jsstring \<Rightarrow> link \<Rightarrow> linkMap" where
  "map_set [] k v = [(k, v)]"
| "map_set ((k', v') # m) k v = (if k' = k then (k, v) # m else (k', v') # map_set m k v)"

definition map_get :: "linkMap \<Rightarrow> jsstring \<Rightarrow> link option" where
  "map_get m k = map_of m k"

text \<open>\<open>new URL(a.getAttribute('href')!, location.href).href\<close>\<close>

definition anchor_url :: "anchor \<Rightarrow> jsstring" where
  "anchor_url a = (case resolved a of Some (_, h) \<Rightarrow> h | None \<Rightarrow> [])"

text \<open>The body of the \<open>forEach\<close> over the filtered anchors.\<close>

definition add_anchor :: "anchor \<Rightarrow> linkMap \<Rightarrow> linkMap" where
  "add_anchor a m =
     (let u = anchor_url a;
          n = anchor_name a in
      if isValid n \<and>
         (case map_get m u of None \<Rightarrow> True | Some e \<Rightarrow> \<not> truthy (linkName e) \<and> n \<noteq> [])
      then map_set m u \<lparr>linkName = (if n = [] then None else Some n), linkUrl = u\<rparr>
      else m)"

definition medicine_links :: "document \<Rightarrow> error + link list" where
  "medicine_links page =
     (case filter_isMed (anchors page) of
        Inl e \<Rightarrow> Inl e
      | Inr meds \<Rightarrow> Inr (map snd (fold add_anchor meds [])))"

text \<open>\<open>getMedicineLinks\<close>: the index page is loaded, and an error is not caught.\<close>

definition getMedicineLinks :: "error + document \<Rightarrow> error + link list" where
  "getMedicineLinks index = (case index of Inl e \<Rightarrow> Inl e | Inr page \<Rightarrow> medicine_links page)"

section \<open>scrapeMedicineDetails: the basic data of an item\<close>

text \<open>
  \<open>name.split(...)[0]\<close> with the expression of the source, whose two alternatives are
  a hyphen between two spaces and an en dash (U+2013) between two spaces: the text before
  the first match.
\<close>

definition is_separator :: "jsstring \<Rightarrow> bool" where
  "is_separator s = (startsWith s (js '' - '') \<or> startsWith s [32, 8211, 32])"

fun split_first :: "jsstring \<Rightarrow> jsstring" where
  "split_first [] = []"
| "split_first (c # cs) = (if is_separator (c # cs) then [] else c # split_first cs)"

definition medicine_name :: "document \<Rightarrow> jsstring" where
  "medicine_name page =
     (let name = or_else (cleanText (heading1 page)) (js ''Unknown Medicine'') in
      if includes_js name (js '' - '') \<or> includes_js name [32, 8211, 32]
      then trim (split_first name) else name)"

definition other_brand_names :: "document \<Rightarrow> jsstring option" where
  "other_brand_names page =
     (let otherBrandNames = cleanText (caption page) in
      case otherBrandNames of
        None \<Rightarrow> None
      | Some t \<Rightarrow>
          if t \<noteq> [] \<and> startsWith t (js ''- Other brand names: '')
          then Some (replace_first t (js ''- Other brand names: '') [])
          else if t \<noteq> [] \<and> startsWith t (js ''- Brand name: '')
          then Some (replace_first t (js ''- Brand name: '') [])
          else Some t)"

text \<open>The test of the loop over the paragraphs of the main region.\<close>

definition is_summary :: "jsstring option \<Rightarrow> bool" where
  "is_summary text =
     (case text of
        None \<Rightarrow> False
      | Some t \<Rightarrow>
          t \<noteq> [] \<and> 50 < length t \<and>
          \<not> includes_js t (js ''cookies'') \<and>
          \<not> includes_js t (js ''analytics'') \<and>
          \<not> includes_js t (js ''We've put some small files'') \<and>
          \<not> includes_js t (js ''Page last reviewed'') \<and>
          \<not> includes_js t (js ''Next review due''))"

definition page_summary :: "document \<Rightarrow> jsstring" where
  "page_summary page =
     (let summary = (case find is_summary (map (\<lambda>p. cleanText (Some p)) (mainParagraphs page)) of
                       Some (Some t) \<Rightarrow> t | _ \<Rightarrow> []) in
      if summary = [] then or_else (cleanText (metaDescription page)) [] else summary)"

text \<open>\<open>[...new Set(xs)]\<close>: the first occurrence of each element, in order.\<close>

definition dedupe :: "'a list \<Rightarrow> 'a list" where
  "dedupe xs = rev (remdups (rev xs))"

definition related_conditions :: "document \<Rightarrow> jsstring list" where
  "related_conditions page =
     dedupe (concat (map (\<lambda>l. case cleanText (Some l) of
                                  None \<Rightarrow> []
                                | Some t \<Rightarrow> if t \<noteq> [] \<and> 0 < length t \<and> length t < 50 then [t] else [])
                         (conditionLinks page)))"

section \<open>getSectionLinks\<close>

text \<open>
  The object \<open>links\<close> is a dictionary from the seven keys to addresses. \<open>classify\<close> is
  the chain of \<open>if\<close> and \<open>else if\<close> over the lowercased, trimmed text of an anchor.
\<close>

definition classify :: "jsstring \<Rightarrow> linkKey option" where
  "classify text =
     (if includes_js text (js ''about'') then Some About
      else if includes_js text (js ''who can'') \<or> includes_js text (js ''cannot take'')
        then Some WhoCanTake
      else if includes_js text (js ''how and when'') \<or> includes_js text (js ''how to take'')
        then Some HowAndWhenToTake
      else if includes_js text (js ''side effect'') then Some SideEffects
      else if includes_js text (js ''pregnancy'') \<or> includes_js text (js ''breastfeeding'') \<or>
              includes_js text (js ''fertility'')
        then Some Pregnancy
      else if includes_js text (js ''taking with'') \<or> includes_js text (js ''other medicines'') \<or>
              includes_js text (js ''interaction'')
        then Some Interactions
      else if includes_js text (js ''common question'') then Some CommonQuestions
      else None)"

text \<open>\<open>href.startsWith('http') ? href : `https://www.nhs.uk${href}`\<close>\<close>

definition fullUrl :: "jsstring \<Rightarrow> jsstring" where
  "fullUrl h = (if startsWith h (js ''http'') then h else js ''https://www.nhs.uk'' @ h)"

text \<open>The body of the \<open>forEach\<close> over the anchors.\<close>

definition add_section_link ::
  "jsstring \<times> jsstring \<Rightarrow> (linkKey \<rightharpoonup> jsstring) \<Rightarrow> (linkKey \<rightharpoonup> jsstring)" where
  "add_section_link a links =
     (case a of (h, content) \<Rightarrow>
        (let text = trim (toLowerCase content) in
         if h \<noteq> [] \<and> text \<noteq> [] then
           (case classify text of
              Some k \<Rightarrow> links(k \<mapsto> fullUrl h)
            | None \<Rightarrow> links)
         else links))"

text \<open>
  An anchor counts for a key when the body of the loop stores its address under that key:
  it has an address and a text, and the text is classified under the key.
\<close>

definition anchor_hit :: "linkKey \<Rightarrow> jsstring \<times> jsstring \<Rightarrow> bool" where
  "anchor_hit k a =
     (fst a \<noteq> [] \<and> trim (toLowerCase (snd a)) \<noteq> [] \<and>
      classify (trim (toLowerCase (snd a))) = Some k)"

definition section_links :: "document \<Rightarrow> (linkKey \<rightharpoonup> jsstring)" where
  "section_links page = fold add_section_link (medicineAnchors page) Map.empty"

definition getSectionLinks :: "pages \<Rightarrow> jsstring \<Rightarrow> (linkKey \<rightharpoonup> jsstring)" where
  "getSectionLinks load medicineUrl =
     (case load SectionLinks medicineUrl of
        Inr page \<Rightarrow> section_links page
      | Inl e \<Rightarrow> Map.empty)"

section \<open>extractSectionContent and extractCommonQuestions\<close>

definition heading_ok :: "jsstring option \<Rightarrow> bool" where
  "heading_ok title =
     (case title of
        None \<Rightarrow> False
      | Some t \<Rightarrow>
          t \<noteq> [] \<and> 3 < length t \<and>
          \<not> includes_js t (js ''Page last reviewed'') \<and>
          \<not> includes_js t (js ''Next review due'') \<and>
          \<not> includes_js t (js ''Health A to Z'') \<and>
          \<not> includes_js t (js ''NHS services'') \<and>
          \<not> includes_js t (js ''Support links'') \<and>
          \<not> includes_js t (js ''Cookies'') \<and>
          \<not> includes_js t (js ''More in '') \<and>
          \<not> includes_js t (js ''Help us improve'') \<and>
          \<not> includes_js t (js ''Can you answer'') \<and>
          \<not> includes_js t (js ''Take our survey''))"

text \<open>The \<open>while\<close> loop over the siblings behind a heading.\<close>

fun sibling_content :: "jsstring list \<Rightarrow> jsstring \<Rightarrow> jsstring" where
  "sibling_content [] content = content"
| "sibling_content (e # es) content =
     (case cleanText (Some e) of
        Some t \<Rightarrow> sibling_content es (if t \<noteq> [] \<and> 10 < length t then content @ t @ [32] else content)
      | None \<Rightarrow> sibling_content es content)"

definition heading_paragraph :: "jsstring \<times> jsstring list \<Rightarrow> Section list" where
  "heading_paragraph h =
     (case h of (heading, siblings) \<Rightarrow>
        (case cleanText (Some heading) of
           None \<Rightarrow> []
         | Some title \<Rightarrow>
             if heading_ok (Some title) then
               (let content = sibling_content siblings [] in
                if 20 < length (trim content)
                then [\<lparr>paragraphTitle = title, paragraphText = trim content\<rparr>] else [])
             else []))"

definition section_paragraphs :: "document \<Rightarrow> Section list" where
  "section_paragraphs page = concat (map heading_paragraph (headings page))"

text \<open>
  \<open>extractSectionContent(url)\<close>. The place tells the browser which load of the item this
  is; the source has no such argument.
\<close>

definition extractSectionContent :: "pages \<Rightarrow> site \<Rightarrow> jsstring \<Rightarrow> MedicineSection" where
  "extractSectionContent load place u =
     (case load place u of
        Inr page \<Rightarrow> \<lparr>sections = section_paragraphs page, url = Some u\<rparr>
      | Inl e \<Rightarrow> \<lparr>sections = [], url = Some u\<rparr>)"

definition question_paragraph :: "jsstring option \<times> jsstring option \<Rightarrow> Section list" where
  "question_paragraph d =
     (case d of
        (Some summaryText, Some answerDiv) \<Rightarrow>
          (case (cleanText (Some summaryText), cleanText (Some answerDiv)) of
             (Some question, Some answer) \<Rightarrow>
               if question \<noteq> [] \<and> answer \<noteq> [] \<and> 5 < length question \<and> 10 < length answer
               then [\<lparr>paragraphTitle = question, paragraphText = answer\<rparr>] else []
           | _ \<Rightarrow> [])
      | _ \<Rightarrow> [])"

definition question_paragraphs :: "document \<Rightarrow> Section list" where
  "question_paragraphs page = concat (map question_paragraph (detailsElements page))"

definition extractCommonQuestions :: "pages \<Rightarrow> site \<Rightarrow> jsstring \<Rightarrow> MedicineSection" where
  "extractCommonQuestions load place u =
     (case load place u of
        Inr page \<Rightarrow> \<lparr>sections = question_paragraphs page, url = Some u\<rparr>
      | Inl e \<Rightarrow> \<lparr>sections = [], url = Some u\<rparr>)"

section \<open>scrapeDetailedSections and scrapeMedicineDetails\<close>

text \<open>
  \<open>section.sections.map(section => ({...section, paragraphText: this.enhanceGrammar(section.paragraphText)}))\<close>
\<close>

definition enhance_section :: "jsstring set \<Rightarrow> MedicineSection \<Rightarrow> MedicineSection" where
  "enhance_section wl s =
     s\<lparr>sections := map (\<lambda>p. p\<lparr>paragraphText := enhanceGrammar wl (paragraphText p)\<rparr>) (sections s)\<rparr>"

definition scrapeDetailedSections ::
  "pages \<Rightarrow> jsstring set \<Rightarrow> MedicineInfo \<Rightarrow> (linkKey \<rightharpoonup> jsstring) \<Rightarrow> MedicineInfo" where
  "scrapeDetailedSections load wl medicineInfo sectionLinks =
     (let m1 = (if truthy (sectionLinks About)
                then medicineInfo\<lparr>about := enhance_section wl
                       (extractSectionContent load (SectionPage About) (the (sectionLinks About)))\<rparr>
                else medicineInfo);
          m2 = (if truthy (sectionLinks WhoCanTake)
                then m1\<lparr>eligibility := enhance_section wl
                       (extractSectionContent load (SectionPage WhoCanTake) (the (sectionLinks WhoCanTake)))\<rparr>
                else m1);
          m3 = (if truthy (sectionLinks HowAndWhenToTake)
                then m2\<lparr>howAndWhenToTake := enhance_section wl
                       (extractSectionContent load (SectionPage HowAndWhenToTake)
                          (the (sectionLinks HowAndWhenToTake)))\<rparr>
                else m2);
          m4 = (if truthy (sectionLinks SideEffects)
                then m3\<lparr>sideEffects := enhance_section wl
                       (extractSectionContent load (SectionPage SideEffects) (the (sectionLinks SideEffects)))\<rparr>
                else m3);
          m5 = (if truthy (sectionLinks Pregnancy)
                then m4\<lparr>pregnancyBreastFeedingFertility := enhance_section wl
                       (extractSectionContent load (SectionPage Pregnancy) (the (sectionLinks Pregnancy)))\<rparr>
                else m4);
          m6 = (if truthy (sectionLinks Interactions)
                then m5\<lparr>takingWithOther := enhance_section wl
                       (extractSectionContent load (SectionPage Interactions) (the (sectionLinks Interactions)))\<rparr>
                else m5);
          m7 = (if truthy (sectionLinks CommonQuestions)
                then m6\<lparr>commonQuestions := enhance_section wl
                       (extractCommonQuestions load (SectionPage CommonQuestions)
                          (the (sectionLinks CommonQuestions)))\<rparr>
                else m6)
      in m7)"

text \<open>
  \<open>scrapeMedicineDetails(link)\<close>: \<open>None\<close> is the \<open>null\<close> of the \<open>catch\<close> block. Of the
  calls inside the \<open>try\<close> only the load of the detail page can throw: getSectionLinks,
  extractSectionContent and extractCommonQuestions catch their own errors.
\<close>

definition scrapeMedicineDetails :: "pages \<Rightarrow> jsstring set \<Rightarrow> link \<Rightarrow> MedicineInfo option" where
  "scrapeMedicineDetails load wl l =
     (case load Detail (linkUrl l) of
        Inl e \<Rightarrow> None
      | Inr page \<Rightarrow>
          (let sectionLinks = getSectionLinks load (linkUrl l);
               medicine = \<lparr>name = medicine_name page,
                           medicine_url = linkUrl l,
                           dateCaptured = Some (now page),
                           otherBrandNames = other_brand_names page,
                           summary = Some (enhanceGrammar wl (or_else (Some (page_summary page)) [])),
                           about = \<lparr>sections = [], url = sectionLinks About\<rparr>,
                           eligibility = \<lparr>sections = [], url = sectionLinks WhoCanTake\<rparr>,
                           howAndWhenToTake = \<lparr>sections = [], url = sectionLinks HowAndWhenToTake\<rparr>,
                           sideEffects = \<lparr>sections = [], url = sectionLinks SideEffects\<rparr>,
                           pregnancyBreastFeedingFertility = \<lparr>sections = [], url = sectionLinks Pregnancy\<rparr>,
                           takingWithOther = \<lparr>sections = [], url = sectionLinks Interactions\<rparr>,
                           commonQuestions = \<lparr>sections = [], url = sectionLinks CommonQuestions\<rparr>,
                           relatedConditions = Some (related_conditions page)\<rparr>
           in Some (scrapeDetailedSections load wl medicine sectionLinks)))"

text \<open>
  The field of the item in which scrapeDetailedSections stores the section of a key, and
  the extraction it runs on the page of that key.
\<close>

fun section_of :: "linkKey \<Rightarrow> MedicineInfo \<Rightarrow> MedicineSection" where
  "section_of About m = about m"
| "section_of WhoCanTake m = eligibility m"
| "section_of HowAndWhenToTake m = howAndWhenToTake m"
| "section_of SideEffects m = sideEffects m"
| "section_of Pregnancy m = pregnancyBreastFeedingFertility m"
| "section_of Interactions m = takingWithOther m"
| "section_of CommonQuestions m = commonQuestions m"

definition extracted :: "linkKey \<Rightarrow> document \<Rightarrow> Section list" where
  "extracted k page = (if k = CommonQuestions then question_paragraphs page else section_paragraphs page)"

section \<open>scrape\<close>

text \<open>
  The options after the constructor has filled in the defaults (\<open>concurrency: 3\<close>,
  \<open>limit: 0\<close>); the other options only change how long a run takes.
\<close>

record ScrapingOptions =
  concurrency :: int
  limit :: int

text \<open>
  What a run meets outside the scraper: the answer to the load of the index page, the
  answers of the browser to the task of each index, the clock at the start, the order in
  which the tasks get the answer of their \<open>scrapeMedicineDetails\<close> together with the
  clock at that moment, the time stamp of the result, and whether writing the result
  throws.
\<close>

record world =
  indexPage :: "error + document"
  browser :: "nat \<Rightarrow> pages"
  startTime :: int
  completions :: "(nat \<times> int) list"
  endTime :: jsstring
  saveResults :: "error option"

text \<open>
  The two lines of the console that report progress. A line for a scraped item carries
  the name, \<open>processedCount\<close>, \<open>linksToProcess.length\<close>, and \<open>elapsed\<close> and
  \<open>remaining\<close>, from which the time left is computed; a line for a failed item has no
  time left.
\<close>

datatype progress =
  Scraped jsstring nat nat int int
| Failed "jsstring option" nat nat

text \<open>
  \<open>avgTimePerMedicine = elapsed / this.processedCount\<close> and
  \<open>estimatedTimeRemaining = remaining * avgTimePerMedicine\<close>, as exact fractions; the
  division is \<open>None\<close> where the divisor is zero.
\<close>

definition estimatedTimeRemaining :: "progress \<Rightarrow> rat option" where
  "estimatedTimeRemaining p =
     (case p of
        Scraped n processed len elapsed remaining \<Rightarrow>
          if processed = 0 then None
          else Some (of_int remaining * (of_int elapsed / of_nat processed))
      | Failed n processed len \<Rightarrow> None)"

datatype task = Waiting | Running | Done

text \<open>
  The state of a run: the semaphore, the task of each link of \<open>linksToProcess\<close>, the two
  arrays \<open>medicines\<close> and \<open>failedMedicines\<close>, the counter \<open>this.processedCount\<close> and the
  progress lines written so far.
\<close>

record run =
  sem :: "nat semaphore"
  tasks :: "task list"
  scraped :: "MedicineInfo list"
  failed :: "jsstring option list"
  processedCount :: nat
  progress :: "progress list"

text \<open>
  \<open>linksToProcess.map(async (link, index) => { await semaphore.acquire(); ... })\<close>: the
  callbacks run in the order of the indices up to their \<open>acquire()\<close>, which lets a task
  run or queues it.
\<close>

definition admit_task :: "nat \<Rightarrow> run \<Rightarrow> run" where
  "admit_task i r =
     (case acquire i (sem r) of
        (granted, s) \<Rightarrow> r\<lparr>sem := s, tasks := tasks r @ [if granted then Running else Waiting]\<rparr>)"

definition start_tasks :: "int \<Rightarrow> nat \<Rightarrow> nat \<Rightarrow> run" where
  "start_tasks k n pc =
     fold admit_task [0..<n]
       \<lparr>sem = Semaphore k, tasks = [], scraped = [], failed = [], processedCount = pc,
        progress = []\<rparr>"

text \<open>
  The rest of the callback of task \<open>i\<close>, which runs when \<open>scrapeMedicineDetails\<close> has
  answered, at time \<open>t\<close>: the \<open>if (medicine)\<close> with its two branches, and in the
  \<open>finally\<close> block the \<open>release()\<close>, which lets the task it wakes run.
\<close>

definition finish_task :: "world \<Rightarrow> jsstring set \<Rightarrow> link list \<Rightarrow> nat \<Rightarrow> int \<Rightarrow> run \<Rightarrow> run" where
  "finish_task w wl linksToProcess i t r =
     (let l = linksToProcess ! i;
          pc = processedCount r + 1;
          r1 = (case scrapeMedicineDetails (browser w i) wl l of
                  Some medicine \<Rightarrow>
                    (let elapsed = t - startTime w;
                         remaining = int (length linksToProcess) - int pc in
                     r\<lparr>scraped := scraped r @ [medicine], processedCount := pc,
                       progress := progress r @
                         [Scraped (name medicine) pc (length linksToProcess) elapsed remaining]\<rparr>)
                | None \<Rightarrow>
                    r\<lparr>failed := failed r @ [linkName l], processedCount := pc,
                      progress := progress r @ [Failed (linkName l) pc (length linksToProcess)]\<rparr>)
      in case release (sem r1) of
           (resumed, s) \<Rightarrow>
             r1\<lparr>sem := s,
                tasks := (case resumed of
                            Some j \<Rightarrow> (tasks r1)[i := Done, j := Running]
                          | None \<Rightarrow> (tasks r1)[i := Done])\<rparr>)"

text \<open>Only a running task can get its answer.\<close>

definition complete_task :: "world \<Rightarrow> jsstring set \<Rightarrow> link list \<Rightarrow> nat \<times> int \<Rightarrow> run \<Rightarrow> run" where
  "complete_task w wl linksToProcess c r =
     (case c of (i, t) \<Rightarrow>
        if i < length (tasks r) \<and> tasks r ! i = Running then finish_task w wl linksToProcess i t r else r)"

definition scrape_run :: "ScrapingOptions \<Rightarrow> jsstring set \<Rightarrow> nat \<Rightarrow> world \<Rightarrow> link list \<Rightarrow> run" where
  "scrape_run options wl pc w linksToProcess =
     fold (complete_task w wl linksToProcess) (completions w)
       (start_tasks (concurrency options) (length linksToProcess) pc)"

text \<open>
  \<open>scrape()\<close> on an initialised scraper whose counter stands at \<open>pc\<close>.
  \<open>Promise.all\<close> is settled when every task is done; until then the call is pending.
\<close>

datatype 'a outcome = Pending | Thrown error | Returned 'a

definition links_to_process :: "ScrapingOptions \<Rightarrow> link list \<Rightarrow> link list" where
  "links_to_process options medicineLinks =
     (if 0 < limit options then take (nat (limit options)) medicineLinks else medicineLinks)"

definition scrape :: "ScrapingOptions \<Rightarrow> jsstring set \<Rightarrow> nat \<Rightarrow> world \<Rightarrow> ScrapingResult outcome" where
  "scrape options wl pc w =
     (case getMedicineLinks (indexPage w) of
        Inl e \<Rightarrow> Thrown e
      | Inr medicineLinks \<Rightarrow>
          (let linksToProcess = links_to_process options medicineLinks;
               r = scrape_run options wl pc w linksToProcess in
           if list_all (\<lambda>t. t = Done) (tasks r) then
             (let result = \<lparr>totalMedicines = length medicineLinks,
                            scrapedMedicines = length (scraped r),
                            failedMedicines = failed r,
                            medicines = scraped r,
                            scrapedAt = endTime w\<rparr> in
              case saveResults w of
                Some e \<Rightarrow> Thrown e
              | None \<Rightarrow> Returned result)
           else Pending))"

section \<open>Sample pages\<close>

text \<open>A page that answers every query with nothing, from which the samples are built.\<close>

definition empty_page :: document where
  "empty_page = \<lparr>anchors = [], heading1 = None, caption = None, mainParagraphs = [],
     metaDescription = None, conditionLinks = [], medicineAnchors = [], headings = [],
     detailsElements = [], now = js ''2025-10-03T00:32:05.405Z''\<rparr>"

text \<open>A detail page whose heading carries a brand name behind an en dash (U+2013).\<close>

definition zovirax_page :: document where
  "zovirax_page = empty_page\<lparr>
     heading1 := Some (js ''Aciclovir '' @ [8211] @ js '' Zovirax''),
     mainParagraphs := [js ''Cookies'',
       js ''Aciclovir is an antiviral medicine and its use is common for cold sores.'']\<rparr>"

definition zovirax_link :: link where
  "zovirax_link = \<lparr>linkName = Some (js ''Aciclovir''),
                    linkUrl = js ''https://www.nhs.uk/medicines/aciclovir/''\<rparr>"

text \<open>A browser that answers every load with the same page.\<close>

definition always :: "document \<Rightarrow> pages" where
  "always page = (\<lambda>place u. Inr page)"

text \<open>
  A detail page with two links whose texts hold the word about: the link to the page
  about the medicine, and behind it the link to its side effects.
\<close>

definition aciclovir_page :: document where
  "aciclovir_page = empty_page\<lparr>
     heading1 := Some (js ''Aciclovir - Zovirax''),
     medicineAnchors :=
       [(js ''/medicines/aciclovir/about-aciclovir/'', js ''About aciclovir''),
        (js ''/medicines/aciclovir/side-effects-of-aciclovir/'', js ''More about Side Effects''),
        (js ''/medicines/aciclovir/common-questions-about-aciclovir/'', js ''Common Questions'')]\<rparr>"

text \<open>A page of common questions with one disclosure widget.\<close>

definition questions_page :: document where
  "questions_page = empty_page\<lparr>
     detailsElements :=
       [(Some (js ''Can I take it with ibuprofen?''), Some (js ''Yes, this is usually safe.''))]\<rparr>"

text \<open>
  A browser for one item: the detail page loads both times, the page of the questions
  loads, every other page of a section times out.
\<close>

definition aciclovir_browser :: pages where
  "aciclovir_browser = (\<lambda>place u.
     case place of
       Detail \<Rightarrow> Inr aciclovir_page
     | SectionLinks \<Rightarrow> Inr aciclovir_page
     | SectionPage k \<Rightarrow> if k = CommonQuestions then Inr questions_page else Inl Timeout)"

text \<open>The same browser, except that the second load of the detail page fails.\<close>

definition no_links_browser :: pages where
  "no_links_browser = (\<lambda>place u.
     case place of SectionLinks \<Rightarrow> Inl NetworkError | _ \<Rightarrow> aciclovir_browser place u)"

text \<open>
  An index page: two anchors to the page of aspirin, the first around an image and
  without text, the anchor of the index itself, and the anchors of two more medicines.
\<close>

definition medicine_anchor :: "string \<Rightarrow> string \<Rightarrow> anchor" where
  "medicine_anchor path content =
     \<lparr>href = Some (js path), textContent = Some (js content),
      resolved = Some (js path, js ''https://www.nhs.uk'' @ js path)\<rparr>"

definition index_page :: document where
  "index_page = empty_page\<lparr>anchors :=
     [medicine_anchor ''/medicines/aspirin/'' '''',
      medicine_anchor ''/medicines/aspirin/'' ''  Aspirin '',
      medicine_anchor ''/medicines/'' ''Medicines A to Z'',
      medicine_anchor ''/medicines/ibuprofen/'' ''Ibuprofen'',
      medicine_anchor ''/medicines/paracetamol/'' ''Paracetamol'']\<rparr>"

definition three_links :: "link list" where
  "three_links =
     [\<lparr>linkName = Some (js ''Aspirin''), linkUrl = js ''https://www.nhs.uk/medicines/aspirin/''\<rparr>,
      \<lparr>linkName = Some (js ''Ibuprofen''), linkUrl = js ''https://www.nhs.uk/medicines/ibuprofen/''\<rparr>,
      \<lparr>linkName = Some (js ''Paracetamol''), linkUrl = js ''https://www.nhs.uk/medicines/paracetamol/''\<rparr>]"

text \<open>
  A run over the three links of the index page with two permits: the detail pages of the
  first two items load, every load for the third item times out. The second task gets
  its answer first, then the first, then the third.
\<close>

definition sample_world :: world where
  "sample_world =
     \<lparr>indexPage = Inr index_page,
      browser = (\<lambda>i. if i = 2 then (\<lambda>place u. Inl Timeout) else always empty_page),
      startTime = 1000,
      completions = [(1, 2000), (0, 3000), (2, 4000)],
      endTime = js ''2025-10-03T00:33:00.000Z'',
      saveResults = None\<rparr>"

definition sample_options :: ScrapingOptions where
  "sample_options = \<lparr>concurrency = 2, limit = 0\<rparr>"

section \<open>Notions used in the statements\<close>

text \<open>
  An anchor is accepted for an address when it resolves to the address and its name
  passes \<open>isValid\<close>; \<open>entry\<close> is the entry of the map for an address, named after the
  first anchor accepted for it.
\<close>

definition accepted :: "jsstring \<Rightarrow> anchor \<Rightarrow> bool" where
  "accepted u a = (anchor_url a = u \<and> isValid (anchor_name a))"

definition entry :: "anchor list \<Rightarrow> jsstring \<Rightarrow> jsstring \<times> link" where
  "entry meds u = (u, \<lparr>linkName = map_option anchor_name (find (accepted u) meds), linkUrl = u\<rparr>)"

text \<open>The value of \<open>this.processedCount\<close> that a progress line shows.\<close>

fun processed_of :: "progress \<Rightarrow> nat" where
  "processed_of (Scraped n processed len elapsed remaining) = processed"
| "processed_of (Failed n processed len) = processed"

text \<open>What the task of index \<open>i\<close> gets from \<open>scrapeMedicineDetails\<close>.\<close>

definition answer :: "world \<Rightarrow> jsstring set \<Rightarrow> link list \<Rightarrow> nat \<Rightarrow> MedicineInfo option" where
  "answer w wl ls i = scrapeMedicineDetails (browser w i) wl (ls ! i)"

text \<open>The indices of the tasks in a given state.\<close>

definition in_state :: "task \<Rightarrow> link list \<Rightarrow> run \<Rightarrow> nat set" where
  "in_state t ls r = {i. i < length ls \<and> tasks r ! i = t}"

text \<open>
  The counter and the progress lines of a run that began with the counter at \<open>pc\<close>: the
  \<open>k\<close>-th line shows the counter \<open>pc + k\<close>, and the line of a scraped item shows what is
  left of the links at that count.
\<close>

definition count_inv :: "nat \<Rightarrow> link list \<Rightarrow> run \<Rightarrow> bool" where
  "count_inv pc ls r =
     (processedCount r = pc + length (progress r) \<and>
      map processed_of (progress r) = [Suc pc ..< Suc pc + length (progress r)] \<and>
      (\<forall>n c t el rem. Scraped n c t el rem \<in> set (progress r) \<longrightarrow>
          rem = int (length ls) - int c))"

text \<open>
  The tasks of a run: there is one for each link, the queue of the semaphore holds
  exactly the waiting ones, each once, and the two arrays hold what the tasks that are
  done got, item or name.
\<close>

definition run_inv :: "world \<Rightarrow> jsstring set \<Rightarrow> link list \<Rightarrow> run \<Rightarrow> bool" where
  "run_inv w wl ls r =
     (length (tasks r) = length ls \<and>
      distinct (waitQueue (sem r)) \<and>
      set (waitQueue (sem r)) = in_state Waiting ls r \<and>
      mset (failed r) =
        image_mset (\<lambda>i. linkName (ls ! i))
          (mset_set {i \<in> in_state Done ls r. answer w wl ls i = None}) \<and>
      mset (scraped r) =
        image_mset (\<lambda>i. the (answer w wl ls i))
          (mset_set {i \<in> in_state Done ls r. answer w wl ls i \<noteq> None}))"

text \<open>The elapsed time of a line is measured at a completion.\<close>

definition timed :: "world \<Rightarrow> run \<Rightarrow> bool" where
  "timed w r = (\<forall>n c t el rem. Scraped n c t el rem \<in> set (progress r) \<longrightarrow>
      (\<exists>i tm. (i, tm) \<in> set (completions w) \<and> el = tm - startTime w))"

text \<open>After the first \<open>j\<close> tasks have called acquire.\<close>

definition admitted :: "nat \<Rightarrow> run \<Rightarrow> bool" where
  "admitted j r =
     (length (tasks r) = j \<and> distinct (waitQueue (sem r)) \<and>
      set (waitQueue (sem r)) = {i. i < j \<and> tasks r ! i = Waiting} \<and>
      (\<forall>i < j. tasks r ! i \<noteq> Done))"

text \<open>
  With \<open>K\<close> permits and the tasks finishing in the order of their indices: the first
  \<open>i\<close> tasks are done, the next \<open>K\<close> run, the others wait in the queue in their order.
\<close>

definition lined_up :: "nat \<Rightarrow> nat \<Rightarrow> nat \<Rightarrow> run \<Rightarrow> bool" where
  "lined_up K n i r =
     (length (tasks r) = n \<and>
      (\<forall>j < n. tasks r ! j = (if j < i then Done else if j < i + K then Running else Waiting)) \<and>
      waitQueue (sem r) = [i + K ..< n])"

section \<open>Texts that the chain leaves alone\<close>

text \<open>The expression of a matcher matches somewhere in the text.\<close>

fun occurs :: "matcher \<Rightarrow> jschar option \<Rightarrow> jsstring \<Rightarrow> bool" where
  "occurs m p [] = False"
| "occurs m p (c # cs) = (m p (c # cs) \<noteq> None \<or> occurs m (Some c) cs)"

text \<open>
  The run expression of \<open>smartCleanText\<close> at the start of a run of lowercase letters whose
  part behind the first letter is in the word list.
\<close>

definition re_known :: "jsstring set \<Rightarrow> matcher" where
  "re_known wl = (\<lambda>p s.
     if (case p of Some c \<Rightarrow> is_lower c | None \<Rightarrow> False) then None
     else case s of
       c # cs \<Rightarrow>
         (let p2 = takeWhile is_lower cs in
          if is_lower c \<and> 3 \<le> length p2 \<and> toLowerCase p2 \<in> wl
          then Some (length p2, c # 32 # p2) else None)
     | [] \<Rightarrow> None)"

text \<open>
  White space stands only as single ordinary spaces between other code units.
\<close>

fun spaced :: "jschar option \<Rightarrow> jsstring \<Rightarrow> bool" where
  "spaced p [] = (case p of Some d \<Rightarrow> \<not> is_space d | None \<Rightarrow> True)"
| "spaced p (c # cs) =
     ((is_space c \<longrightarrow> c = 32 \<and> (case p of Some d \<Rightarrow> \<not> is_space d | None \<Rightarrow> False)) \<and>
      spaced (Some c) cs)"

text \<open>
  None of the expressions that \<open>smartCleanText\<close> and \<open>enhanceGrammar\<close> rewrite
  occurs in the text. (A non-breaking space is white space that is not an ordinary space,
  and the expression with \<open>you\<close> rewrites nothing.)
\<close>

definition settled :: "jsstring set \<Rightarrow> jsstring \<Rightarrow> bool" where
  "settled wl s =
     (spaced None s \<and>
      \<not> occurs (re_unit (\<lambda>c. c = 8211 \<or> c = 8212) [32]) None s \<and>
      \<not> occurs (re_pair (\<lambda>c. c = 46 \<or> c = 33 \<or> c = 63 \<or> c = 58) is_upper) None s \<and>
      \<not> occurs (re_pair is_lower is_upper) None s \<and>
      \<not> occurs (re_pair is_lower is_digit) None s \<and>
      \<not> occurs (re_pair is_digit is_upper) None s \<and>
      \<not> occurs (re_pair (\<lambda>c. c = 58) is_lower) None s \<and>
      \<not> occurs (re_known wl) None s \<and>
      \<not> occurs re_period None s \<and>
      \<not> occurs re_comma None s \<and>
      \<not> occurs re_its None s)"

text \<open>Behind a lowercase letter, fewer than three lowercase letters follow.\<close>

definition short_run :: "jschar option \<Rightarrow> jsstring \<Rightarrow> bool" where
  "short_run p s =
     (case p of Some d \<Rightarrow> is_lower d \<longrightarrow> length (takeWhile is_lower s) < 3 | None \<Rightarrow> True)"

text \<open>
  As \<open>spaced\<close>, but for the ends of the text: \<open>strict\<close> allows white space at the
  end, \<open>loose\<close> at both ends.
\<close>

fun strict :: "jschar option \<Rightarrow> jsstring \<Rightarrow> bool" where
  "strict p [] = True"
| "strict p (c # cs) =
     ((is_space c \<longrightarrow> c = 32 \<and> (case p of Some d \<Rightarrow> \<not> is_space d | None \<Rightarrow> False)) \<and>
      strict (Some c) cs)"

fun loose :: "jschar option \<Rightarrow> jsstring \<Rightarrow> bool" where
  "loose p [] = True"
| "loose p (c # cs) =
     ((is_space c \<longrightarrow> c = 32 \<and> (case p of Some d \<Rightarrow> \<not> is_space d | None \<Rightarrow> True)) \<and>
      loose (Some c) cs)"

section \<open>The concurrency gate\<close>

lemma sem_run_fifo:
  "sem_run s calls = (evs, s') \<Longrightarrow> waitQueue s @ enqueued evs = woken evs @ waitQueue s'"
proof (induction calls arbitrary: s evs s')
  case Nil
  then show ?case by simp
next
  case (Cons call calls)
  show ?case
  proof (cases call)
    case (Acquire c)
    obtain g s1 where a: "acquire c s = (g, s1)" by (cases "acquire c s")
    obtain evs1 s2 where r: "sem_run s1 calls = (evs1, s2)" by (cases "sem_run s1 calls")
    from Cons.prems Acquire a r
    have e: "evs = (if g then Proceeded c else Enqueued c) # evs1" and s: "s' = s2" by auto
    from Cons.IH [OF r] have ih: "waitQueue s1 @ enqueued evs1 = woken evs1 @ waitQueue s2" .
    from a have "waitQueue s1 = (if g then waitQueue s else waitQueue s @ [c])"
      by (auto simp: acquire_def split: if_splits)
    with ih e s show ?thesis by (cases g) auto
  next
    case Release
    obtain w s1 where a: "release s = (w, s1)" by (cases "release s")
    obtain evs1 s2 where r: "sem_run s1 calls = (evs1, s2)" by (cases "sem_run s1 calls")
    from Cons.prems Release a r
    have e: "evs = (case w of Some c \<Rightarrow> Woke c | None \<Rightarrow> Woke_nobody) # evs1" and s: "s' = s2"
      by auto
    from Cons.IH [OF r] have ih: "waitQueue s1 @ enqueued evs1 = woken evs1 @ waitQueue s2" .
    from a have "waitQueue s = (case w of Some c \<Rightarrow> c # waitQueue s1 | None \<Rightarrow> waitQueue s1)"
      by (auto simp: release_def Let_def split: list.splits)
    with ih e s show ?thesis by (cases w) auto
  qed
qed

text \<open>
  C1. An \<open>acquire()\<close> that finds a permit takes it and goes on without suspending; an
  \<open>acquire()\<close> that finds none appends its caller to the queue. A \<open>release()\<close> wakes
  nobody when the queue is empty and otherwise exactly the caller at the head of the
  queue, who gets the permit that was just freed. Over any sequence of calls, from any
  state of the gate, the callers woken so far followed by those still queued are the
  callers queued at the start followed by those suspended since, in that order: waiters
  are served first in, first out. With two permits and five acquisitions the callers 1 and
  2 go on at once and 3, 4, 5 are queued; one release then wakes caller 3 alone.
\<close>

theorem semaphore_fifo:
  "(0 < permits s \<longrightarrow> acquire c s = (True, s\<lparr>permits := permits s - 1\<rparr>)) \<and>
   (\<not> 0 < permits s \<longrightarrow> acquire c s = (False, s\<lparr>waitQueue := waitQueue s @ [c]\<rparr>)) \<and>
   (waitQueue s = [] \<longrightarrow> release s = (None, s\<lparr>permits := permits s + 1\<rparr>)) \<and>
   (waitQueue s \<noteq> [] \<longrightarrow>
      release s = (Some (hd (waitQueue s)), s\<lparr>waitQueue := tl (waitQueue s)\<rparr>)) \<and>
   waitQueue s @ enqueued (fst (sem_run s calls)) =
     woken (fst (sem_run s calls)) @ waitQueue (snd (sem_run s calls)) \<and>
   sem_run (Semaphore 2) [Acquire 1, Acquire 2, Acquire 3, Acquire 4, Acquire (5::nat)] =
     ([Proceeded 1, Proceeded 2, Enqueued 3, Enqueued 4, Enqueued 5],
      \<lparr>permits = 0, waitQueue = [3, 4, 5]\<rparr>) \<and>
   release \<lparr>permits = 0, waitQueue = [3, 4, 5::nat]\<rparr> =
     (Some 3, \<lparr>permits = 0, waitQueue = [4, 5]\<rparr>)"
proof -
  have fifo: "waitQueue s @ enqueued (fst (sem_run s calls)) =
     woken (fst (sem_run s calls)) @ waitQueue (snd (sem_run s calls))"
    by (rule sem_run_fifo) simp
  have rel: "waitQueue s \<noteq> [] \<longrightarrow>
      release s = (Some (hd (waitQueue s)), s\<lparr>waitQueue := tl (waitQueue s)\<rparr>)"
    by (cases "waitQueue s") (simp_all add: release_def Let_def)
  have run: "sem_run (Semaphore 2) [Acquire 1, Acquire 2, Acquire 3, Acquire 4, Acquire (5::nat)] =
     ([Proceeded 1, Proceeded 2, Enqueued 3, Enqueued 4, Enqueued 5],
      \<lparr>permits = 0, waitQueue = [3, 4, 5]\<rparr>)"
    by (simp add: Semaphore_def acquire_def)
  show ?thesis
    using fifo rel run by (simp add: acquire_def release_def)
qed

theorem semaphore_fifo_witness:
  "acquire (1::nat) (Semaphore 2) = (True, \<lparr>permits = 1, waitQueue = []\<rparr>) \<and>
   acquire (3::nat) \<lparr>permits = 0, waitQueue = []\<rparr> = (False, \<lparr>permits = 0, waitQueue = [3]\<rparr>) \<and>
   release (\<lparr>permits = 1, waitQueue = []\<rparr> :: nat semaphore) = (None, \<lparr>permits = 2, waitQueue = []\<rparr>) \<and>
   release \<lparr>permits = 0, waitQueue = [3, 4, 5::nat]\<rparr> = (Some 3, \<lparr>permits = 0, waitQueue = [4, 5]\<rparr>)"
proof -
  have a: "acquire (1::nat) (Semaphore 2) = (True, \<lparr>permits = 1, waitQueue = []\<rparr>)"
    using semaphore_fifo [of "Semaphore 2" "1::nat" "[]"] by (simp add: Semaphore_def)
  have b: "acquire (3::nat) \<lparr>permits = 0, waitQueue = []\<rparr> = (False, \<lparr>permits = 0, waitQueue = [3]\<rparr>)"
    using semaphore_fifo [of "\<lparr>permits = 0, waitQueue = []\<rparr>" "3::nat" "[]"] by simp
  have c: "release (\<lparr>permits = 1, waitQueue = []\<rparr> :: nat semaphore) = (None, \<lparr>permits = 2, waitQueue = []\<rparr>)"
    using semaphore_fifo [of "\<lparr>permits = 1, waitQueue = []\<rparr> :: nat semaphore" 0 "[]"] by simp
  have d: "release \<lparr>permits = 0, waitQueue = [3, 4, 5::nat]\<rparr> = (Some 3, \<lparr>permits = 0, waitQueue = [4, 5]\<rparr>)"
    using semaphore_fifo [of "\<lparr>permits = 0, waitQueue = [3, 4, 5::nat]\<rparr>" 0 "[]"] by simp
  show ?thesis using a b c d by simp
qed

section \<open>The basic data of an item\<close>

lemma or_else_Some: "or_else (Some t) [] = t"
  by (simp add: or_else_def)

lemma sds_summary: "summary (scrapeDetailedSections load wl m sl) = summary m"
  by (simp add: scrapeDetailedSections_def Let_def)

lemma sds_name: "name (scrapeDetailedSections load wl m sl) = name m"
  by (simp add: scrapeDetailedSections_def Let_def)

lemmas text_eval =
  cleanText_def run_passes_def cleanText_passes_def js_def replace_all_def re_unit_def
  re_pair_def re_run_def re_lit_def re_spaces_def split_common_def commonWords_def
  startsWith_def toLowerCase_def trim_def is_lower_def is_upper_def is_digit_def is_space_def

lemmas grammar_eval =
  enhanceGrammar_def enhanceGrammar_passes_def smartCleanText_def smartCleanText_passes_def
  split_known_def re_period_def add_period_def re_comma_def conjunctions_def after_word_def
  re_its_def re_you_def fix_you_def auxiliaries_def word_boundary_def is_word_def

text \<open>
  C10. When the detail page of an item loads, the item is built, and its stored summary is
  \<open>enhanceGrammar\<close> applied to the summary taken from the page (the first paragraph that
  passes the test, else the meta description, else the empty text).
\<close>

theorem summary_enhanced:
  "load Detail (linkUrl l) = Inr page \<Longrightarrow>
   \<exists>m. scrapeMedicineDetails load wl l = Some m \<and>
       summary m = Some (enhanceGrammar wl (page_summary page))"
  by (simp add: scrapeMedicineDetails_def Let_def sds_summary or_else_Some)

lemma zovirax_summary:
  "page_summary zovirax_page =
     js ''Aciclovir is an antiviral medicine and its use is common for cold sores.''"
  by (simp add: page_summary_def zovirax_page_def empty_page_def is_summary_def text_eval)

lemma zovirax_summary_enhanced:
  "enhanceGrammar {} (js ''Aciclovir is an antiviral medicine and its use is common for cold sores.'') =
     js ''Aciclovir is an antiviral medicine and it's use is common for cold sores.''"
  by (simp add: grammar_eval text_eval)

theorem summary_enhanced_witness:
  "\<exists>m. scrapeMedicineDetails (always zovirax_page) {} zovirax_link = Some m \<and>
       summary m = Some (js ''Aciclovir is an antiviral medicine and it's use is common for cold sores.'')"
  using summary_enhanced [of "always zovirax_page" zovirax_link zovirax_page "{}"]
  by (simp add: always_def zovirax_summary zovirax_summary_enhanced)

text \<open>
  C9. The stored name is cut at a hyphen between two spaces, but not at an en dash or an
  em dash: \<open>cleanText\<close> has turned both dashes into spaces before the name is tested
  for a separator, so the brand name behind them stays in the stored name.
\<close>

theorem name_keeps_brand_behind_dash:
  "map_option name (scrapeMedicineDetails (always zovirax_page) fallbackWordList zovirax_link) =
     Some (js ''Aciclovir Zovirax'') \<and>
   medicine_name (empty_page\<lparr>heading1 := Some (js ''Aciclovir '' @ [8212] @ js '' Zovirax'')\<rparr>) =
     js ''Aciclovir Zovirax'' \<and>
   medicine_name (empty_page\<lparr>heading1 := Some (js ''Aciclovir - Zovirax'')\<rparr>) = js ''Aciclovir''"
proof -
  have a: "medicine_name zovirax_page = js ''Aciclovir Zovirax''"
    by (simp add: medicine_name_def zovirax_page_def empty_page_def or_else_def text_eval
        is_separator_def)
  have b: "medicine_name (empty_page\<lparr>heading1 := Some (js ''Aciclovir '' @ [8212] @ js '' Zovirax'')\<rparr>) =
     js ''Aciclovir Zovirax''"
    by (simp add: medicine_name_def empty_page_def or_else_def text_eval is_separator_def)
  have c: "medicine_name (empty_page\<lparr>heading1 := Some (js ''Aciclovir - Zovirax'')\<rparr>) = js ''Aciclovir''"
    by (simp add: medicine_name_def empty_page_def or_else_def text_eval is_separator_def)
  have "map_option name (scrapeMedicineDetails (always zovirax_page) fallbackWordList zovirax_link) =
     Some (medicine_name zovirax_page)"
    by (simp add: scrapeMedicineDetails_def always_def Let_def sds_name)
  with a b c show ?thesis by simp
qed

section \<open>The links and the pages of the sections\<close>

lemma add_section_link_eq:
  "add_section_link a links k = (if anchor_hit k a then Some (fullUrl (fst a)) else links k)"
  by (cases a) (auto simp: add_section_link_def anchor_hit_def Let_def split: option.splits)

lemma fold_section_links:
  "fold add_section_link as links k =
     (case filter (anchor_hit k) as of [] \<Rightarrow> links k | hits \<Rightarrow> Some (fullUrl (fst (last hits))))"
proof (induction as rule: rev_induct)
  case Nil
  then show ?case by simp
next
  case (snoc a as)
  then show ?case
    by (simp add: add_section_link_eq split: list.splits)
qed

lemma fullUrl_nonempty: "fullUrl h \<noteq> []"
  by (auto simp: fullUrl_def js_def startsWith_def)

lemma section_links_nonempty: "section_links page k = Some u \<Longrightarrow> u \<noteq> []"
  by (auto simp: section_links_def fold_section_links fullUrl_nonempty split: list.splits)

lemma getSectionLinks_truthy:
  "getSectionLinks load u k = Some v \<Longrightarrow> truthy (getSectionLinks load u k)"
  by (auto simp: getSectionLinks_def truthy_def dest: section_links_nonempty split: sum.splits)

lemma sds_section:
  "section_of k (scrapeDetailedSections load wl m sl) =
     (if truthy (sl k)
      then enhance_section wl
             ((if k = CommonQuestions then extractCommonQuestions else extractSectionContent)
                load (SectionPage k) (the (sl k)))
      else section_of k m)"
  by (cases k) (simp_all add: scrapeDetailedSections_def Let_def)

text \<open>What scrapeMedicineDetails stores for a key, whatever the pages of the sections do.\<close>

lemma stored_section:
  assumes "load Detail (linkUrl l) = Inr page"
  shows "\<exists>m. scrapeMedicineDetails load wl l = Some m \<and>
     (\<forall>k. section_of k m =
        (case getSectionLinks load (linkUrl l) k of
           None \<Rightarrow> \<lparr>sections = [], url = None\<rparr>
         | Some u \<Rightarrow>
             (case load (SectionPage k) u of
                Inl e \<Rightarrow> \<lparr>sections = [], url = Some u\<rparr>
              | Inr p \<Rightarrow> enhance_section wl \<lparr>sections = extracted k p, url = Some u\<rparr>)))"
proof -
  let ?sl = "getSectionLinks load (linkUrl l)"
  obtain m0 where m: "scrapeMedicineDetails load wl l = Some (scrapeDetailedSections load wl m0 ?sl)"
    and m0: "\<forall>k. section_of k m0 = \<lparr>sections = [], url = ?sl k\<rparr>"
  proof
    let ?m0 = "\<lparr>name = medicine_name page,
                           medicine_url = linkUrl l,
                           dateCaptured = Some (now page),
                           otherBrandNames = other_brand_names page,
                           summary = Some (enhanceGrammar wl (or_else (Some (page_summary page)) [])),
                           about = \<lparr>sections = [], url = ?sl About\<rparr>,
                           eligibility = \<lparr>sections = [], url = ?sl WhoCanTake\<rparr>,
                           howAndWhenToTake = \<lparr>sections = [], url = ?sl HowAndWhenToTake\<rparr>,
                           sideEffects = \<lparr>sections = [], url = ?sl SideEffects\<rparr>,
                           pregnancyBreastFeedingFertility = \<lparr>sections = [], url = ?sl Pregnancy\<rparr>,
                           takingWithOther = \<lparr>sections = [], url = ?sl Interactions\<rparr>,
                           commonQuestions = \<lparr>sections = [], url = ?sl CommonQuestions\<rparr>,
                           relatedConditions = Some (related_conditions page)\<rparr>"
    show "scrapeMedicineDetails load wl l = Some (scrapeDetailedSections load wl ?m0 ?sl)"
      using assms by (simp add: scrapeMedicineDetails_def Let_def)
    show "\<forall>k. section_of k ?m0 = \<lparr>sections = [], url = ?sl k\<rparr>"
    proof
      fix k show "section_of k ?m0 = \<lparr>sections = [], url = ?sl k\<rparr>" by (cases k) simp_all
    qed
  qed
  have "section_of k (scrapeDetailedSections load wl m0 ?sl) =
        (case ?sl k of
           None \<Rightarrow> \<lparr>sections = [], url = None\<rparr>
         | Some u \<Rightarrow>
             (case load (SectionPage k) u of
                Inl e \<Rightarrow> \<lparr>sections = [], url = Some u\<rparr>
              | Inr p \<Rightarrow> enhance_section wl \<lparr>sections = extracted k p, url = Some u\<rparr>))" for k
  proof (cases "?sl k")
    case None
    then show ?thesis using m0 by (simp add: sds_section truthy_def)
  next
    case (Some u)
    then have "truthy (?sl k)" by (rule getSectionLinks_truthy)
    with Some show ?thesis
      by (simp add: sds_section extractSectionContent_def extractCommonQuestions_def
          enhance_section_def extracted_def split: sum.splits)
  qed
  with m show ?thesis by simp
qed

lemmas links_eval =
  section_links_def add_section_link_def classify_def fullUrl_def anchor_hit_def
  js_def startsWith_def toLowerCase_def trim_def is_upper_def is_space_def

lemma aciclovir_links:
  "section_links aciclovir_page =
     [About \<mapsto> js ''https://www.nhs.uk/medicines/aciclovir/side-effects-of-aciclovir/'',
      CommonQuestions \<mapsto> js ''https://www.nhs.uk/medicines/aciclovir/common-questions-about-aciclovir/'']"
  by (simp add: aciclovir_page_def empty_page_def links_eval)

text \<open>
  C5, as the code has it. The text of an anchor is lowercased and trimmed and then
  classified by the first of the seven keyword groups of which it holds a keyword. For
  each key the address stored is that of the last anchor in document order that counts
  for the key: a later anchor of a key replaces the address of an earlier one. A key for
  which no anchor counts has no address.
\<close>

theorem last_anchor_wins:
  "section_links page k =
     (case filter (anchor_hit k) (medicineAnchors page) of
        [] \<Rightarrow> None
      | hits \<Rightarrow> Some (fullUrl (fst (last hits))))"
  by (simp add: section_links_def fold_section_links)

theorem last_anchor_wins_witness:
  "section_links aciclovir_page About =
     Some (js ''https://www.nhs.uk/medicines/aciclovir/side-effects-of-aciclovir/'')"
  using last_anchor_wins [of aciclovir_page About]
  by (simp add: aciclovir_page_def empty_page_def links_eval)

text \<open>
  The first anchor of the sample page counts for the key of the page about the medicine,
  and so does the second one; the address stored is that of the second.
\<close>

theorem first_anchor_replaced:
  "anchor_hit About (js ''/medicines/aciclovir/about-aciclovir/'', js ''About aciclovir'') \<and>
   medicineAnchors aciclovir_page ! 0 =
     (js ''/medicines/aciclovir/about-aciclovir/'', js ''About aciclovir'') \<and>
   section_links aciclovir_page About \<noteq>
     Some (fullUrl (js ''/medicines/aciclovir/about-aciclovir/'')) \<and>
   section_links aciclovir_page About =
     Some (fullUrl (js ''/medicines/aciclovir/side-effects-of-aciclovir/''))"
  by (simp add: aciclovir_page_def empty_page_def links_eval)

text \<open>
  C3. When the detail page of an item loads, the item is built whatever happens
  afterwards. A section whose link was found and whose page fails to load is stored with
  no paragraphs and with the address of the link; a section whose page loads is stored
  with the paragraphs of that page, whatever the pages of the other sections did. When
  the load for the links of the sections fails, the map of the links is empty and every
  section is stored empty, without an address.
\<close>

theorem section_failure_isolated:
  assumes "load Detail (linkUrl l) = Inr page"
  shows "\<exists>m. scrapeMedicineDetails load wl l = Some m \<and>
     (\<forall>k u e. getSectionLinks load (linkUrl l) k = Some u \<and> load (SectionPage k) u = Inl e \<longrightarrow>
        section_of k m = \<lparr>sections = [], url = Some u\<rparr>) \<and>
     (\<forall>k u p. getSectionLinks load (linkUrl l) k = Some u \<and> load (SectionPage k) u = Inr p \<longrightarrow>
        section_of k m = enhance_section wl \<lparr>sections = extracted k p, url = Some u\<rparr>) \<and>
     (\<forall>e. load SectionLinks (linkUrl l) = Inl e \<longrightarrow>
        getSectionLinks load (linkUrl l) = Map.empty \<and>
        (\<forall>k. section_of k m = \<lparr>sections = [], url = None\<rparr>))"
proof -
  from stored_section [of load l page wl] assms obtain m where
    m: "scrapeMedicineDetails load wl l = Some m" and
    s: "\<And>k. section_of k m =
        (case getSectionLinks load (linkUrl l) k of
           None \<Rightarrow> \<lparr>sections = [], url = None\<rparr>
         | Some u \<Rightarrow>
             (case load (SectionPage k) u of
                Inl e \<Rightarrow> \<lparr>sections = [], url = Some u\<rparr>
              | Inr p \<Rightarrow> enhance_section wl \<lparr>sections = extracted k p, url = Some u\<rparr>))"
    by blast
  have a: "\<forall>k u e. getSectionLinks load (linkUrl l) k = Some u \<and> load (SectionPage k) u = Inl e \<longrightarrow>
        section_of k m = \<lparr>sections = [], url = Some u\<rparr>"
    by (simp add: s)
  have b: "\<forall>k u p. getSectionLinks load (linkUrl l) k = Some u \<and> load (SectionPage k) u = Inr p \<longrightarrow>
        section_of k m = enhance_section wl \<lparr>sections = extracted k p, url = Some u\<rparr>"
    by (simp add: s)
  have c: "\<forall>e. load SectionLinks (linkUrl l) = Inl e \<longrightarrow>
        getSectionLinks load (linkUrl l) = Map.empty \<and>
        (\<forall>k. section_of k m = \<lparr>sections = [], url = None\<rparr>)"
    by (simp add: s getSectionLinks_def)
  from m a b c show ?thesis by blast
qed

lemma questions_extracted:
  "question_paragraphs questions_page =
     [\<lparr>paragraphTitle = js ''Can I take it with ibuprofen?'',
       paragraphText = js ''Yes, this is usually safe.''\<rparr>]"
  by (simp add: question_paragraphs_def question_paragraph_def questions_page_def empty_page_def
      text_eval)

lemma answer_unchanged:
  "js ''his'' \<notin> wl \<Longrightarrow> js ''sually'' \<notin> wl \<Longrightarrow> js ''afe'' \<notin> wl \<Longrightarrow>
   enhanceGrammar wl (js ''Yes, this is usually safe.'') = js ''Yes, this is usually safe.''"
  by (simp add: grammar_eval text_eval)

lemma answer_split:
  "enhanceGrammar {js ''his''} (js ''Yes, this is usually safe.'') = js ''Yes, t his is usually safe.''"
  by (simp add: grammar_eval text_eval)

lemma fallback_misses:
  "js ''his'' \<notin> fallbackWordList \<and> js ''sually'' \<notin> fallbackWordList \<and> js ''afe'' \<notin> fallbackWordList"
  by (simp add: fallbackWordList_def js_def)

lemma aciclovir_loads:
  "aciclovir_browser Detail u = Inr aciclovir_page"
  "getSectionLinks aciclovir_browser u = section_links aciclovir_page"
  "aciclovir_browser (SectionPage About) u = Inl Timeout"
  "aciclovir_browser (SectionPage CommonQuestions) u = Inr questions_page"
  "no_links_browser Detail u = Inr aciclovir_page"
  "no_links_browser SectionLinks u = Inl NetworkError"
  by (simp_all add: aciclovir_browser_def no_links_browser_def getSectionLinks_def)

theorem section_failure_isolated_witness:
  "(\<exists>m. scrapeMedicineDetails aciclovir_browser {} zovirax_link = Some m \<and>
       about m = \<lparr>sections = [],
         url = Some (js ''https://www.nhs.uk/medicines/aciclovir/side-effects-of-aciclovir/'')\<rparr> \<and>
       commonQuestions m = \<lparr>sections =
           [\<lparr>paragraphTitle = js ''Can I take it with ibuprofen?'',
             paragraphText = js ''Yes, this is usually safe.''\<rparr>],
         url = Some (js ''https://www.nhs.uk/medicines/aciclovir/common-questions-about-aciclovir/'')\<rparr>) \<and>
   (\<exists>m. scrapeMedicineDetails no_links_browser {} zovirax_link = Some m \<and>
       about m = \<lparr>sections = [], url = None\<rparr> \<and>
       commonQuestions m = \<lparr>sections = [], url = None\<rparr>)"
proof -
  let ?u = "js ''https://www.nhs.uk/medicines/aciclovir/side-effects-of-aciclovir/''"
  let ?q = "js ''https://www.nhs.uk/medicines/aciclovir/common-questions-about-aciclovir/''"
  from section_failure_isolated [of aciclovir_browser zovirax_link aciclovir_page "{}"]
  obtain m where m: "scrapeMedicineDetails aciclovir_browser {} zovirax_link = Some m"
    and f: "\<And>k u e. getSectionLinks aciclovir_browser (linkUrl zovirax_link) k = Some u \<Longrightarrow>
              aciclovir_browser (SectionPage k) u = Inl e \<Longrightarrow>
              section_of k m = \<lparr>sections = [], url = Some u\<rparr>"
    and g: "\<And>k u p. getSectionLinks aciclovir_browser (linkUrl zovirax_link) k = Some u \<Longrightarrow>
              aciclovir_browser (SectionPage k) u = Inr p \<Longrightarrow>
              section_of k m = enhance_section {} \<lparr>sections = extracted k p, url = Some u\<rparr>"
    by (auto simp: aciclovir_loads)
  have "section_of About m = \<lparr>sections = [], url = Some ?u\<rparr>"
    by (rule f [where e = Timeout]) (simp_all add: aciclovir_loads aciclovir_links)
  moreover have "section_of CommonQuestions m =
      enhance_section {} \<lparr>sections = extracted CommonQuestions questions_page, url = Some ?q\<rparr>"
    by (rule g) (simp_all add: aciclovir_loads aciclovir_links)
  ultimately have 1: "\<exists>m. scrapeMedicineDetails aciclovir_browser {} zovirax_link = Some m \<and>
       about m = \<lparr>sections = [], url = Some ?u\<rparr> \<and>
       commonQuestions m = \<lparr>sections =
           [\<lparr>paragraphTitle = js ''Can I take it with ibuprofen?'',
             paragraphText = js ''Yes, this is usually safe.''\<rparr>],
         url = Some ?q\<rparr>"
    using m by (simp add: enhance_section_def extracted_def questions_extracted answer_unchanged)
  from section_failure_isolated [of no_links_browser zovirax_link aciclovir_page "{}"]
  obtain m' where m': "scrapeMedicineDetails no_links_browser {} zovirax_link = Some m'"
    and h: "\<And>k. section_of k m' = \<lparr>sections = [], url = None\<rparr>"
    by (auto simp: aciclovir_loads)
  from h [of About] h [of CommonQuestions] m' have 2:
    "\<exists>m. scrapeMedicineDetails no_links_browser {} zovirax_link = Some m \<and>
       about m = \<lparr>sections = [], url = None\<rparr> \<and>
       commonQuestions m = \<lparr>sections = [], url = None\<rparr>"
    by simp
  from 1 2 show ?thesis by blast
qed

text \<open>
  C7, as the code has it. The paragraphs stored for a section are those extracted from
  its page, each with its title as extracted and with \<open>enhanceGrammar\<close> applied to its
  text; a section without a link or whose page fails to load stores no paragraph. (The
  page script has applied its own \<open>cleanText\<close> to title and text alike when extracting
  them.) The pair of the prompt "Can I take it with ibuprofen?" and the payload "Yes, this
  is usually safe." is stored with exactly that title and text when the word list holds
  none of the words his, sually and afe, as is the case for the built-in list.
\<close>

theorem body_enhanced_title_kept:
  assumes "load Detail (linkUrl l) = Inr page"
  shows "\<exists>m. scrapeMedicineDetails load wl l = Some m \<and>
     (\<forall>k. sections (section_of k m) =
        (case getSectionLinks load (linkUrl l) k of
           None \<Rightarrow> []
         | Some u \<Rightarrow>
             (case load (SectionPage k) u of
                Inl e \<Rightarrow> []
              | Inr p \<Rightarrow>
                  map (\<lambda>s. s\<lparr>paragraphText := enhanceGrammar wl (paragraphText s)\<rparr>) (extracted k p)))) \<and>
     (\<forall>u p. getSectionLinks load (linkUrl l) CommonQuestions = Some u \<and>
         load (SectionPage CommonQuestions) u = Inr p \<and>
         detailsElements p =
           [(Some (js ''Can I take it with ibuprofen?''), Some (js ''Yes, this is usually safe.''))] \<and>
         js ''his'' \<notin> wl \<and> js ''sually'' \<notin> wl \<and> js ''afe'' \<notin> wl \<longrightarrow>
         sections (commonQuestions m) =
           [\<lparr>paragraphTitle = js ''Can I take it with ibuprofen?'',
             paragraphText = js ''Yes, this is usually safe.''\<rparr>])"
proof -
  from stored_section [of load l page wl] assms obtain m where
    m: "scrapeMedicineDetails load wl l = Some m" and
    s: "\<And>k. section_of k m =
        (case getSectionLinks load (linkUrl l) k of
           None \<Rightarrow> \<lparr>sections = [], url = None\<rparr>
         | Some u \<Rightarrow>
             (case load (SectionPage k) u of
                Inl e \<Rightarrow> \<lparr>sections = [], url = Some u\<rparr>
              | Inr p \<Rightarrow> enhance_section wl \<lparr>sections = extracted k p, url = Some u\<rparr>))"
    by blast
  have a: "sections (section_of k m) =
        (case getSectionLinks load (linkUrl l) k of
           None \<Rightarrow> []
         | Some u \<Rightarrow>
             (case load (SectionPage k) u of
                Inl e \<Rightarrow> []
              | Inr p \<Rightarrow>
                  map (\<lambda>s. s\<lparr>paragraphText := enhanceGrammar wl (paragraphText s)\<rparr>) (extracted k p)))" for k
    by (simp add: s enhance_section_def split: option.splits sum.splits)
  have b: "sections (commonQuestions m) =
           [\<lparr>paragraphTitle = js ''Can I take it with ibuprofen?'',
             paragraphText = js ''Yes, this is usually safe.''\<rparr>]"
    if "getSectionLinks load (linkUrl l) CommonQuestions = Some u"
      and "load (SectionPage CommonQuestions) u = Inr p"
      and d: "detailsElements p =
           [(Some (js ''Can I take it with ibuprofen?''), Some (js ''Yes, this is usually safe.''))]"
      and w: "js ''his'' \<notin> wl" "js ''sually'' \<notin> wl" "js ''afe'' \<notin> wl"
    for u p
  proof -
    have "question_paragraphs p = question_paragraphs questions_page"
      by (simp add: question_paragraphs_def d questions_page_def empty_page_def)
    with that a [of CommonQuestions] show ?thesis
      by (simp add: extracted_def questions_extracted answer_unchanged)
  qed
  from m a b show ?thesis by blast
qed

theorem body_enhanced_title_kept_witness:
  "\<exists>m. scrapeMedicineDetails aciclovir_browser fallbackWordList zovirax_link = Some m \<and>
       sections (about m) = [] \<and>
       sections (commonQuestions m) =
         [\<lparr>paragraphTitle = js ''Can I take it with ibuprofen?'',
           paragraphText = js ''Yes, this is usually safe.''\<rparr>]"
proof -
  from body_enhanced_title_kept [of aciclovir_browser zovirax_link aciclovir_page fallbackWordList]
  obtain m where m: "scrapeMedicineDetails aciclovir_browser fallbackWordList zovirax_link = Some m"
    and a: "\<And>k. sections (section_of k m) =
        (case getSectionLinks aciclovir_browser (linkUrl zovirax_link) k of
           None \<Rightarrow> []
         | Some u \<Rightarrow>
             (case aciclovir_browser (SectionPage k) u of
                Inl e \<Rightarrow> []
              | Inr p \<Rightarrow>
                  map (\<lambda>s. s\<lparr>paragraphText := enhanceGrammar fallbackWordList (paragraphText s)\<rparr>)
                    (extracted k p)))"
    and b: "\<And>u p. getSectionLinks aciclovir_browser (linkUrl zovirax_link) CommonQuestions = Some u \<Longrightarrow>
         aciclovir_browser (SectionPage CommonQuestions) u = Inr p \<Longrightarrow>
         detailsElements p =
           [(Some (js ''Can I take it with ibuprofen?''), Some (js ''Yes, this is usually safe.''))] \<Longrightarrow>
         js ''his'' \<notin> fallbackWordList \<and> js ''sually'' \<notin> fallbackWordList \<and>
         js ''afe'' \<notin> fallbackWordList \<Longrightarrow>
         sections (commonQuestions m) =
           [\<lparr>paragraphTitle = js ''Can I take it with ibuprofen?'',
             paragraphText = js ''Yes, this is usually safe.''\<rparr>]"
    by (auto simp: aciclovir_loads)
  have "sections (about m) = []"
    using a [of About] by (simp add: aciclovir_loads aciclovir_links)
  moreover have "sections (commonQuestions m) =
         [\<lparr>paragraphTitle = js ''Can I take it with ibuprofen?'',
           paragraphText = js ''Yes, this is usually safe.''\<rparr>]"
    by (rule b [of _ questions_page])
       (simp_all add: aciclovir_loads aciclovir_links fallback_misses questions_page_def empty_page_def)
  ultimately show ?thesis using m by blast
qed

text \<open>
  With a word list that holds the word his, the stored text of the pair is not the
  payload: the word this is split.
\<close>

theorem answer_split_by_word_list:
  "map_option commonQuestions (scrapeMedicineDetails aciclovir_browser {js ''his''} zovirax_link) =
   Some \<lparr>sections =
           [\<lparr>paragraphTitle = js ''Can I take it with ibuprofen?'',
             paragraphText = js ''Yes, t his is usually safe.''\<rparr>],
         url = Some (js ''https://www.nhs.uk/medicines/aciclovir/common-questions-about-aciclovir/'')\<rparr>"
proof -
  from stored_section [of aciclovir_browser zovirax_link aciclovir_page "{js ''his''}"]
  obtain m where m: "scrapeMedicineDetails aciclovir_browser {js ''his''} zovirax_link = Some m"
    and s: "\<And>k. section_of k m =
        (case getSectionLinks aciclovir_browser (linkUrl zovirax_link) k of
           None \<Rightarrow> \<lparr>sections = [], url = None\<rparr>
         | Some u \<Rightarrow>
             (case aciclovir_browser (SectionPage k) u of
                Inl e \<Rightarrow> \<lparr>sections = [], url = Some u\<rparr>
              | Inr p \<Rightarrow> enhance_section {js ''his''} \<lparr>sections = extracted k p, url = Some u\<rparr>))"
    by (auto simp: aciclovir_loads)
  from s [of CommonQuestions] have "commonQuestions m =
      \<lparr>sections =
         [\<lparr>paragraphTitle = js ''Can I take it with ibuprofen?'',
           paragraphText = js ''Yes, t his is usually safe.''\<rparr>],
       url = Some (js ''https://www.nhs.uk/medicines/aciclovir/common-questions-about-aciclovir/'')\<rparr>"
    by (simp add: aciclovir_loads aciclovir_links enhance_section_def extracted_def
        questions_extracted answer_split)
  with m show ?thesis by simp
qed

section \<open>The catalog of links\<close>

lemma filter_isMed_eq:
  "filter_isMed as = Inr meds \<Longrightarrow> meds = filter (\<lambda>a. isMed a = Inr True) as"
proof (induction as arbitrary: meds)
  case Nil
  then show ?case by simp
next
  case (Cons a as)
  then show ?case by (auto split: sum.splits if_splits)
qed

lemma dedupe_snoc: "dedupe (xs @ [x]) = (if x \<in> set xs then dedupe xs else dedupe xs @ [x])"
  by (simp add: dedupe_def)

lemma set_dedupe: "set (dedupe xs) = set xs"
  by (simp add: dedupe_def)

lemma distinct_dedupe: "distinct (dedupe xs)"
  by (simp add: dedupe_def)

lemma find_append:
  "find P (xs @ ys) = (case find P xs of None \<Rightarrow> find P ys | Some x \<Rightarrow> Some x)"
  by (induction xs) auto

lemma find_filter: "find P (filter Q xs) = find (\<lambda>x. Q x \<and> P x) xs"
  by (induction xs) auto

lemma map_set_new: "k \<notin> fst ` set m \<Longrightarrow> map_set m k v = m @ [(k, v)]"
  by (induction m) auto

lemma map_set_fst: "k \<in> fst ` set m \<Longrightarrow> map fst (map_set m k v) = map fst m"
proof (induction m)
  case Nil
  then show ?case by simp
next
  case (Cons e m)
  then show ?case by (cases e) auto
qed

lemma map_of_keyed:
  "map_of (map (\<lambda>u. (u, g u)) us) k = (if k \<in> set us then Some (g k) else None)"
  by (induction us) auto

lemma map_get_set: "map_get (map_set m k v) k = Some v"
  by (induction m) (auto simp: map_get_def)

lemma isValid_nonempty: "isValid n \<Longrightarrow> n \<noteq> []"
  by (auto simp: isValid_def)

lemma fold_add_anchor:
  "fold add_anchor meds [] =
     map (entry meds) (dedupe (map anchor_url (filter (\<lambda>a. isValid (anchor_name a)) meds)))"
proof (induction meds rule: rev_induct)
  case Nil
  then show ?case by (simp add: dedupe_def)
next
  case (snoc a meds)
  let ?valid = "\<lambda>a. isValid (anchor_name a)"
  let ?us = "dedupe (map anchor_url (filter ?valid meds))"
  have old: "entry (meds @ [a]) u = entry meds u" if "u \<in> set ?us" for u
  proof -
    from that obtain b where "b \<in> set meds" "accepted u b"
      by (auto simp: set_dedupe accepted_def)
    then have "find (accepted u) meds \<noteq> None" by (auto simp: find_None_iff)
    then show ?thesis by (auto simp: entry_def find_append)
  qed
  then have m: "map (entry (meds @ [a])) ?us = map (entry meds) ?us" by simp
  have step: "fold add_anchor (meds @ [a]) [] = add_anchor a (map (entry meds) ?us)"
    using snoc by simp
  show ?case
  proof (cases "?valid a")
    case False
    then have "add_anchor a (map (entry meds) ?us) = map (entry meds) ?us"
      by (simp add: add_anchor_def Let_def)
    with False step m show ?thesis by simp
  next
    case True
    show ?thesis
    proof (cases "anchor_url a \<in> set ?us")
      case in_us: True
      then obtain b where b: "b \<in> set meds" "accepted (anchor_url a) b"
        by (auto simp: set_dedupe accepted_def)
      then have "find (accepted (anchor_url a)) meds \<noteq> None" by (auto simp: find_None_iff)
      then obtain c where c: "find (accepted (anchor_url a)) meds = Some c" by auto
      then have "accepted (anchor_url a) c" by (auto simp: find_Some_iff)
      then have ne: "anchor_name c \<noteq> []" by (auto simp: accepted_def isValid_nonempty)
      have "map_of (map (entry meds) ?us) (anchor_url a) = Some (snd (entry meds (anchor_url a)))"
        using in_us by (simp add: entry_def [abs_def] map_of_keyed)
      with c have "map_get (map (entry meds) ?us) (anchor_url a) =
          Some \<lparr>linkName = Some (anchor_name c), linkUrl = anchor_url a\<rparr>"
        by (simp add: map_get_def entry_def)
      with ne have "add_anchor a (map (entry meds) ?us) = map (entry meds) ?us"
        by (simp add: add_anchor_def Let_def truthy_def)
      moreover have "dedupe (map anchor_url (filter ?valid (meds @ [a]))) = ?us"
        using True in_us by (simp add: dedupe_snoc set_dedupe)
      ultimately show ?thesis using step m by simp
    next
      case new: False
      have none: "find (accepted (anchor_url a)) meds = None"
      proof -
        have "\<not> accepted (anchor_url a) b" if "b \<in> set meds" for b
        proof
          assume "accepted (anchor_url a) b"
          then have v: "isValid (anchor_name b)" and e: "anchor_url b = anchor_url a"
            by (simp_all add: accepted_def)
          from that v have "anchor_url b \<in> set ?us"
            by (simp add: set_dedupe)
          with new e show False by simp
        qed
        then show ?thesis by (auto simp: find_None_iff)
      qed
      have nin: "anchor_url a \<notin> fst ` set (map (entry meds) ?us)"
        using new by (auto simp: entry_def image_iff)
      then have "map_of (map (entry meds) ?us) (anchor_url a) = None"
        by (simp add: map_of_eq_None_iff)
      then have "add_anchor a (map (entry meds) ?us) =
          map (entry meds) ?us @ [(anchor_url a, \<lparr>linkName = Some (anchor_name a), linkUrl = anchor_url a\<rparr>)]"
        using True nin isValid_nonempty [OF True]
        by (simp add: add_anchor_def Let_def map_get_def map_set_new)
      moreover have "entry (meds @ [a]) (anchor_url a) =
          (anchor_url a, \<lparr>linkName = Some (anchor_name a), linkUrl = anchor_url a\<rparr>)"
        using True none by (simp add: entry_def find_append accepted_def)
      moreover have "dedupe (map anchor_url (filter ?valid (meds @ [a]))) = ?us @ [anchor_url a]"
        using True new by (simp add: dedupe_snoc set_dedupe)
      ultimately show ?thesis using step m by simp
    qed
  qed
qed

lemma filter_eq_single: "distinct xs \<Longrightarrow> x \<in> set xs \<Longrightarrow> filter (\<lambda>y. y = x) xs = [x]"
  by (induction xs) (auto simp: filter_empty_conv)

lemma find_Some_set: "find P xs = Some x \<Longrightarrow> x \<in> set xs \<and> P x"
  by (induction xs) (auto split: if_splits)

lemma medicine_links_eq:
  assumes "medicine_links page = Inr catalog"
  shows "catalog = map (\<lambda>u. snd (entry (filter (\<lambda>a. isMed a = Inr True) (anchors page)) u))
           (dedupe (map anchor_url
              (filter (\<lambda>a. isMed a = Inr True \<and> isValid (anchor_name a)) (anchors page))))"
proof -
  from assms obtain meds where f: "filter_isMed (anchors page) = Inr meds"
    and c: "catalog = map snd (fold add_anchor meds [])"
    by (auto simp: medicine_links_def split: sum.splits)
  from f have "meds = filter (\<lambda>a. isMed a = Inr True) (anchors page)" by (rule filter_isMed_eq)
  with c show ?thesis by (simp add: fold_add_anchor conj_commute)
qed

text \<open>
  C6. The catalog has one entry for each address to which an accepted anchor resolves, in
  the order in which the addresses are first met, and the name of an entry is the name of
  the first anchor accepted for its address. So when the anchors of an address have
  either no text or the text Aspirin, and one of them has the text, the catalog has
  exactly one entry for the address, named Aspirin, wherever the anchor without text
  stands. The body of the loop, run on a map whose entry for the address has no name,
  with an anchor whose name is accepted, puts the name into that entry and leaves the
  order of the entries as it is.
\<close>

theorem catalog_first_name:
  assumes "medicine_links page = Inr catalog"
  shows "map linkUrl catalog =
           dedupe (map anchor_url
             (filter (\<lambda>a. isMed a = Inr True \<and> isValid (anchor_name a)) (anchors page))) \<and>
         distinct (map linkUrl catalog) \<and>
         (\<forall>e \<in> set catalog.
            linkName e = map_option anchor_name
              (find (\<lambda>a. isMed a = Inr True \<and> accepted (linkUrl e) a) (anchors page))) \<and>
         (\<forall>u. (\<exists>a \<in> set (anchors page).
                 isMed a = Inr True \<and> anchor_url a = u \<and> anchor_name a = js ''Aspirin'') \<and>
              (\<forall>a \<in> set (anchors page). isMed a = Inr True \<and> anchor_url a = u \<longrightarrow>
                 anchor_name a = [] \<or> anchor_name a = js ''Aspirin'') \<longrightarrow>
              filter (\<lambda>e. linkUrl e = u) catalog = [\<lparr>linkName = Some (js ''Aspirin''), linkUrl = u\<rparr>]) \<and>
         (\<forall>a m e. isValid (anchor_name a) \<and> map_get m (anchor_url a) = Some e \<and>
              \<not> truthy (linkName e) \<longrightarrow>
              map_get (add_anchor a m) (anchor_url a) =
                Some \<lparr>linkName = Some (anchor_name a), linkUrl = anchor_url a\<rparr> \<and>
              map fst (add_anchor a m) = map fst m)"
proof -
  let ?meds = "filter (\<lambda>a. isMed a = Inr True) (anchors page)"
  let ?us = "dedupe (map anchor_url
             (filter (\<lambda>a. isMed a = Inr True \<and> isValid (anchor_name a)) (anchors page)))"
  have cat: "catalog = map (\<lambda>u. snd (entry ?meds u)) ?us"
    using assms by (rule medicine_links_eq)
  have urls: "map linkUrl catalog = ?us"
    by (simp add: cat entry_def comp_def)
  have dist: "distinct (map linkUrl catalog)"
    by (simp add: urls distinct_dedupe)
  have names: "linkName e = map_option anchor_name
              (find (\<lambda>a. isMed a = Inr True \<and> accepted (linkUrl e) a) (anchors page))"
    if "e \<in> set catalog" for e
    using that by (auto simp: cat entry_def find_filter)
  have aspirin: "filter (\<lambda>e. linkUrl e = u) catalog = [\<lparr>linkName = Some (js ''Aspirin''), linkUrl = u\<rparr>]"
    if ex: "\<exists>a \<in> set (anchors page).
                 isMed a = Inr True \<and> anchor_url a = u \<and> anchor_name a = js ''Aspirin''"
      and al: "\<forall>a \<in> set (anchors page). isMed a = Inr True \<and> anchor_url a = u \<longrightarrow>
                 anchor_name a = [] \<or> anchor_name a = js ''Aspirin''"
    for u
  proof -
    have va: "isValid (js ''Aspirin'')" by (simp add: isValid_def js_def startsWith_def)
    from ex obtain a where a: "a \<in> set (anchors page)" "isMed a = Inr True" "anchor_url a = u"
      "anchor_name a = js ''Aspirin''" by blast
    with va have "a \<in> set ?meds" "accepted u a" by (simp_all add: accepted_def)
    then have "find (accepted u) ?meds \<noteq> None" by (auto simp: find_None_iff)
    then obtain c where c: "find (accepted u) ?meds = Some c" by auto
    then have "c \<in> set ?meds" "accepted u c"
      by (auto dest: find_Some_set)
    then have "c \<in> set (anchors page)" "isMed c = Inr True" "anchor_url c = u" "anchor_name c \<noteq> []"
      by (auto simp: accepted_def isValid_nonempty)
    with al have n: "anchor_name c = js ''Aspirin''" by blast
    from a va have "u \<in> set ?us" by (auto simp: set_dedupe)
    then have "filter (\<lambda>y. y = u) ?us = [u]"
      by (intro filter_eq_single) (simp_all add: distinct_dedupe)
    moreover have "filter (\<lambda>e. linkUrl e = u) catalog =
        map (\<lambda>u. snd (entry ?meds u)) (filter (\<lambda>y. y = u) ?us)"
      by (simp add: cat filter_map comp_def entry_def)
    ultimately show ?thesis using c n by (simp add: entry_def)
  qed
  have backfill: "map_get (add_anchor a m) (anchor_url a) =
                Some \<lparr>linkName = Some (anchor_name a), linkUrl = anchor_url a\<rparr> \<and>
              map fst (add_anchor a m) = map fst m"
    if "isValid (anchor_name a)" "map_get m (anchor_url a) = Some e" "\<not> truthy (linkName e)"
    for a m e
  proof -
    from that(2) have "anchor_url a \<in> fst ` set m"
      by (auto simp: map_get_def dest!: map_of_SomeD intro: rev_image_eqI)
    with that show ?thesis
      by (simp add: add_anchor_def Let_def map_get_set map_set_fst isValid_nonempty)
  qed
  from urls dist names aspirin backfill show ?thesis by blast
qed

lemmas catalog_eval =
  medicine_links_def isMed_def anchor_name_def anchor_url_def isValid_def add_anchor_def
  map_get_def truthy_def or_else_def medicine_anchor_def Let_def
  js_def startsWith_def trim_def is_space_def replace_all_def re_spaces_def

lemma index_links: "medicine_links index_page = Inr three_links"
  by (simp add: index_page_def empty_page_def three_links_def catalog_eval)

theorem catalog_first_name_witness:
  "medicine_links index_page = Inr three_links \<and>
   distinct (map linkUrl three_links) \<and>
   filter (\<lambda>e. linkUrl e = js ''https://www.nhs.uk/medicines/aspirin/'') three_links =
     [\<lparr>linkName = Some (js ''Aspirin''), linkUrl = js ''https://www.nhs.uk/medicines/aspirin/''\<rparr>] \<and>
   map_get (add_anchor (medicine_anchor ''/medicines/aspirin/'' ''Aspirin'')
              [(js ''https://www.nhs.uk/medicines/aspirin/'',
                \<lparr>linkName = None, linkUrl = js ''https://www.nhs.uk/medicines/aspirin/''\<rparr>)])
           (js ''https://www.nhs.uk/medicines/aspirin/'') =
     Some \<lparr>linkName = Some (js ''Aspirin''), linkUrl = js ''https://www.nhs.uk/medicines/aspirin/''\<rparr>"
proof -
  let ?u = "js ''https://www.nhs.uk/medicines/aspirin/''"
  note t = catalog_first_name [OF index_links]
  from t have d: "distinct (map linkUrl three_links)" by blast
  have ex: "\<exists>a \<in> set (anchors index_page).
      isMed a = Inr True \<and> anchor_url a = ?u \<and> anchor_name a = js ''Aspirin''"
    by (simp add: index_page_def empty_page_def catalog_eval)
  have al: "\<forall>a \<in> set (anchors index_page). isMed a = Inr True \<and> anchor_url a = ?u \<longrightarrow>
      anchor_name a = [] \<or> anchor_name a = js ''Aspirin''"
    by (simp add: index_page_def empty_page_def catalog_eval)
  from t ex al have f: "filter (\<lambda>e. linkUrl e = ?u) three_links =
     [\<lparr>linkName = Some (js ''Aspirin''), linkUrl = ?u\<rparr>]" by blast
  let ?a = "medicine_anchor ''/medicines/aspirin/'' ''Aspirin''"
  let ?m = "[(?u, \<lparr>linkName = None, linkUrl = ?u\<rparr>)]"
  have h: "isValid (anchor_name ?a) \<and> map_get ?m (anchor_url ?a) = Some \<lparr>linkName = None, linkUrl = ?u\<rparr> \<and>
      \<not> truthy (linkName \<lparr>linkName = None, linkUrl = ?u\<rparr>)"
    by (simp add: catalog_eval)
  have au: "anchor_url ?a = ?u" "anchor_name ?a = js ''Aspirin''"
    by (simp_all add: catalog_eval)
  from t h have "map_get (add_anchor ?a ?m) (anchor_url ?a) =
                Some \<lparr>linkName = Some (anchor_name ?a), linkUrl = anchor_url ?a\<rparr>"
    by blast
  with au have b: "map_get (add_anchor ?a ?m) ?u = Some \<lparr>linkName = Some (js ''Aspirin''), linkUrl = ?u\<rparr>"
    by simp
  from index_links d f b show ?thesis by blast
qed

section \<open>The run over the links\<close>

lemma admit_progress:
  "progress (admit_task i r) = progress r" "processedCount (admit_task i r) = processedCount r"
  "failed (admit_task i r) = failed r" "scraped (admit_task i r) = scraped r"
  by (simp_all add: admit_task_def split: prod.splits)

lemma fold_admit_progress:
  "progress (fold admit_task is r) = progress r \<and>
   processedCount (fold admit_task is r) = processedCount r \<and>
   failed (fold admit_task is r) = failed r \<and> scraped (fold admit_task is r) = scraped r"
  by (induction "is" arbitrary: r) (simp_all add: admit_progress)

lemma start_count_inv: "count_inv pc ls (start_tasks k n pc)"
  by (simp add: count_inv_def start_tasks_def fold_admit_progress)

lemma finish_count_inv: "count_inv pc ls r \<Longrightarrow> count_inv pc ls (finish_task w wl ls i t r)"
  by (auto simp: count_inv_def finish_task_def Let_def split: option.splits prod.splits)

lemma complete_count_inv: "count_inv pc ls r \<Longrightarrow> count_inv pc ls (complete_task w wl ls c r)"
  by (cases c) (simp add: complete_task_def finish_count_inv)

lemma fold_complete_count_inv:
  "count_inv pc ls r \<Longrightarrow> count_inv pc ls (fold (complete_task w wl ls) cs r)"
  by (induction cs arbitrary: r) (simp_all add: complete_count_inv)

lemma scrape_run_count_inv: "count_inv pc ls (scrape_run options wl pc w ls)"
  by (simp add: scrape_run_def fold_complete_count_inv start_count_inv)

lemma fold_complete_timed:
  "timed w r \<Longrightarrow> set cs \<subseteq> set (completions w) \<Longrightarrow> timed w (fold (complete_task w wl ls) cs r)"
proof (induction cs arbitrary: r)
  case Nil
  then show ?case by simp
next
  case (Cons c cs)
  obtain i tm where c: "c = (i, tm)" by (cases c)
  with Cons.prems have "(i, tm) \<in> set (completions w)" by simp
  with Cons.prems(1) have "timed w (complete_task w wl ls c r)"
    unfolding c timed_def complete_task_def finish_task_def
    by (auto simp: Let_def split: option.splits prod.splits; blast)
  with Cons show ?case by simp
qed

lemma scrape_run_timed: "timed w (scrape_run options wl pc w ls)"
  unfolding scrape_run_def
  by (rule fold_complete_timed) (simp_all add: timed_def start_tasks_def fold_admit_progress)

text \<open>
  C8. In every run, from any count \<open>pc\<close> of earlier runs, the progress lines show the
  counts \<open>pc + 1\<close>, \<open>pc + 2\<close>, ... in their order, so every line is written at a
  count of at least 1 and the first line of a fresh scraper at the count 1. The line of a
  scraped item has its elapsed time from a completion, its remaining links from the
  count already incremented, and its time left is \<open>remaining * (elapsed / count)\<close>
  with a divisor that is not zero.
\<close>

theorem eta_divisor_positive:
  "map processed_of (progress (scrape_run options wl pc w ls)) =
     [Suc pc ..< Suc pc + length (progress (scrape_run options wl pc w ls))] \<and>
   (\<forall>e \<in> set (progress (scrape_run options wl pc w ls)). 1 \<le> processed_of e) \<and>
   (\<forall>n c t el rem. Scraped n c t el rem \<in> set (progress (scrape_run options wl pc w ls)) \<longrightarrow>
      1 \<le> c \<and> rem = int (length ls) - int c \<and>
      (\<exists>i tm. (i, tm) \<in> set (completions w) \<and> el = tm - startTime w) \<and>
      estimatedTimeRemaining (Scraped n c t el rem) = Some (of_int rem * (of_int el / of_nat c)))"
proof -
  let ?r = "scrape_run options wl pc w ls"
  have inv: "count_inv pc ls ?r" by (rule scrape_run_count_inv)
  then have m: "map processed_of (progress ?r) = [Suc pc ..< Suc pc + length (progress ?r)]"
    by (simp add: count_inv_def)
  have pos: "1 \<le> processed_of e" if "e \<in> set (progress ?r)" for e
  proof -
    from that have "processed_of e \<in> set (map processed_of (progress ?r))" by simp
    then have "processed_of e \<in> set [Suc pc ..< Suc pc + length (progress ?r)]"
      by (simp only: m)
    then have "Suc pc \<le> processed_of e"
      by (simp only: set_upt atLeastLessThan_iff)
    then show ?thesis by arith
  qed
  have sc: "1 \<le> c \<and> rem = int (length ls) - int c \<and>
      (\<exists>i tm. (i, tm) \<in> set (completions w) \<and> el = tm - startTime w) \<and>
      estimatedTimeRemaining (Scraped n c t el rem) = Some (of_int rem * (of_int el / of_nat c))"
    if s: "Scraped n c t el rem \<in> set (progress ?r)" for n c t el rem
  proof -
    from pos [OF s] have c: "1 \<le> c" by simp
    from inv s have "rem = int (length ls) - int c" unfolding count_inv_def by blast
    moreover from scrape_run_timed [of w options wl pc ls] s
    have "\<exists>i tm. (i, tm) \<in> set (completions w) \<and> el = tm - startTime w"
      unfolding timed_def by blast
    ultimately show ?thesis using c by (simp add: estimatedTimeRemaining_def)
  qed
  from m pos sc show ?thesis by blast
qed

lemma admit_admitted: "admitted j r \<Longrightarrow> admitted (Suc j) (admit_task j r)"
  by (auto simp: admitted_def admit_task_def acquire_def nth_append less_Suc_eq)

lemma fold_admit_admitted: "admitted 0 r \<Longrightarrow> admitted n (fold admit_task [0..<n] r)"
  by (induction n) (simp_all add: admit_admitted)

lemma start_run_inv: "run_inv w wl ls (start_tasks k (length ls) pc)"
proof -
  let ?r0 = "\<lparr>sem = Semaphore k, tasks = [], scraped = [], failed = [], processedCount = pc,
        progress = []\<rparr>"
  have "admitted 0 ?r0" by (simp add: admitted_def Semaphore_def)
  then have a: "admitted (length ls) (start_tasks k (length ls) pc)"
    unfolding start_tasks_def by (rule fold_admit_admitted)
  then have d: "in_state Done ls (start_tasks k (length ls) pc) = {}"
    by (auto simp: admitted_def in_state_def)
  from a have q: "length (tasks (start_tasks k (length ls) pc)) = length ls \<and>
      distinct (waitQueue (sem (start_tasks k (length ls) pc))) \<and>
      set (waitQueue (sem (start_tasks k (length ls) pc))) =
        in_state Waiting ls (start_tasks k (length ls) pc)"
    by (simp add: admitted_def in_state_def)
  have e: "failed (start_tasks k (length ls) pc) = [] \<and> scraped (start_tasks k (length ls) pc) = []"
    by (simp add: start_tasks_def fold_admit_progress)
  from q e show ?thesis
    unfolding run_inv_def d by simp
qed


lemma finish_fields:
  "tasks (finish_task w wl ls i t r) =
     (case waitQueue (sem r) of
        [] \<Rightarrow> (tasks r)[i := Done]
      | j # rest \<Rightarrow> (tasks r)[i := Done, j := Running])"
  "waitQueue (sem (finish_task w wl ls i t r)) = tl (waitQueue (sem r))"
  "failed (finish_task w wl ls i t r) =
     (case answer w wl ls i of None \<Rightarrow> failed r @ [linkName (ls ! i)] | Some m \<Rightarrow> failed r)"
  "scraped (finish_task w wl ls i t r) =
     (case answer w wl ls i of None \<Rightarrow> scraped r | Some m \<Rightarrow> scraped r @ [m])"
  by (simp_all add: finish_task_def release_def answer_def Let_def
      split: option.splits list.splits prod.splits)

lemma finish_run_inv:
  assumes inv: "run_inv w wl ls r" and i: "i < length (tasks r)" and run: "tasks r ! i = Running"
  shows "run_inv w wl ls (finish_task w wl ls i t r)"
proof -
  let ?r' = "finish_task w wl ls i t r"
  let ?q = "waitQueue (sem r)"
  from inv have len: "length (tasks r) = length ls" and dq: "distinct ?q"
    and sq: "set ?q = in_state Waiting ls r"
    and mf: "mset (failed r) = image_mset (\<lambda>i. linkName (ls ! i))
          (mset_set {i \<in> in_state Done ls r. answer w wl ls i = None})"
    and ms: "mset (scraped r) = image_mset (\<lambda>i. the (answer w wl ls i))
          (mset_set {i \<in> in_state Done ls r. answer w wl ls i \<noteq> None})"
    by (simp_all add: run_inv_def)
  have len': "length (tasks ?r') = length ls"
    by (simp add: finish_fields len split: list.splits)
  have hdq: "j < length ls \<and> tasks r ! j = Waiting \<and> j \<noteq> i \<and> j \<notin> set rest"
    if "?q = j # rest" for j rest
  proof -
    from that sq have "j \<in> in_state Waiting ls r" by auto
    moreover from that dq have "j \<notin> set rest" by simp
    ultimately show ?thesis using run by (auto simp: in_state_def)
  qed
  have nth_nil: "tasks ?r' ! k = (if k = i then Done else tasks r ! k)"
    if "?q = []" "k < length ls" for k
    using that i len by (simp add: finish_fields nth_list_update)
  have nth_cons: "tasks ?r' ! k = (if k = j then Running else if k = i then Done else tasks r ! k)"
    if "?q = j # rest" "k < length ls" for k j rest
    using that i len by (simp add: finish_fields nth_list_update)
  have wait': "in_state Waiting ls ?r' = set (tl ?q)"
  proof (cases ?q)
    case Nil
    with sq have "\<And>k. k < length ls \<Longrightarrow> tasks r ! k \<noteq> Waiting"
      by (auto simp: in_state_def)
    then have "in_state Waiting ls ?r' = {}"
      unfolding in_state_def using nth_nil [OF Nil] by auto
    with Nil show ?thesis by simp
  next
    case (Cons j rest)
    note h = hdq [OF Cons]
    have "k \<in> in_state Waiting ls ?r' \<longleftrightarrow> k \<in> set rest" for k
    proof
      assume "k \<in> in_state Waiting ls ?r'"
      then have k: "k < length ls" "tasks ?r' ! k = Waiting" by (simp_all add: in_state_def)
      with nth_cons [OF Cons, of k] have "k \<noteq> j" "tasks r ! k = Waiting"
        by (auto split: if_splits)
      with k have "k \<in> in_state Waiting ls r" by (simp add: in_state_def)
      with sq Cons \<open>k \<noteq> j\<close> show "k \<in> set rest" by auto
    next
      assume "k \<in> set rest"
      with sq Cons have "k \<in> in_state Waiting ls r" by auto
      then have k: "k < length ls" "tasks r ! k = Waiting" by (simp_all add: in_state_def)
      from \<open>k \<in> set rest\<close> h have "k \<noteq> j" by auto
      moreover from k run have "k \<noteq> i" by auto
      ultimately show "k \<in> in_state Waiting ls ?r'"
        using k nth_cons [OF Cons, of k] by (simp add: in_state_def)
    qed
    with Cons show ?thesis by auto
  qed
  have done': "in_state Done ls ?r' = insert i (in_state Done ls r)"
  proof (cases ?q)
    case Nil
    have "k \<in> in_state Done ls ?r' \<longleftrightarrow> k = i \<or> k \<in> in_state Done ls r" for k
      using nth_nil [OF Nil, of k] i len run by (auto simp: in_state_def split: if_splits)
    then show ?thesis by auto
  next
    case (Cons j rest)
    note h = hdq [OF Cons]
    have "k \<in> in_state Done ls ?r' \<longleftrightarrow> k = i \<or> k \<in> in_state Done ls r" for k
      using nth_cons [OF Cons, of k] i len run h by (auto simp: in_state_def split: if_splits)
    then show ?thesis by auto
  qed
  have notin: "i \<notin> in_state Done ls r" using run by (simp add: in_state_def)
  have fin: "finite {k \<in> in_state Done ls r. P k}" for P
    by (simp add: in_state_def)
  have fail': "mset (failed ?r') = image_mset (\<lambda>i. linkName (ls ! i))
          (mset_set {k \<in> in_state Done ls ?r'. answer w wl ls k = None})"
  proof (cases "answer w wl ls i")
    case None
    then have "{k \<in> in_state Done ls ?r'. answer w wl ls k = None} =
        insert i {k \<in> in_state Done ls r. answer w wl ls k = None}"
      unfolding done' by auto
    with None notin show ?thesis by (simp add: finish_fields mf fin)
  next
    case (Some m)
    then have "{k \<in> in_state Done ls ?r'. answer w wl ls k = None} =
        {k \<in> in_state Done ls r. answer w wl ls k = None}"
      unfolding done' by auto
    with Some show ?thesis by (simp add: finish_fields mf)
  qed
  have scr': "mset (scraped ?r') = image_mset (\<lambda>i. the (answer w wl ls i))
          (mset_set {k \<in> in_state Done ls ?r'. answer w wl ls k \<noteq> None})"
  proof (cases "answer w wl ls i")
    case None
    then have "{k \<in> in_state Done ls ?r'. answer w wl ls k \<noteq> None} =
        {k \<in> in_state Done ls r. answer w wl ls k \<noteq> None}"
      unfolding done' by auto
    with None show ?thesis by (simp add: finish_fields ms)
  next
    case (Some m)
    then have "{k \<in> in_state Done ls ?r'. answer w wl ls k \<noteq> None} =
        insert i {k \<in> in_state Done ls r. answer w wl ls k \<noteq> None}"
      unfolding done' by auto
    with Some notin show ?thesis by (simp add: finish_fields ms fin)
  qed
  from dq have "distinct (tl ?q)" by (rule distinct_tl)
  with len' wait' fail' scr' show ?thesis
    by (simp add: run_inv_def finish_fields)
qed

lemma complete_run_inv: "run_inv w wl ls r \<Longrightarrow> run_inv w wl ls (complete_task w wl ls c r)"
  by (cases c) (simp add: complete_task_def finish_run_inv)

lemma fold_complete_run_inv:
  "run_inv w wl ls r \<Longrightarrow> run_inv w wl ls (fold (complete_task w wl ls) cs r)"
  by (induction cs arbitrary: r) (simp_all add: complete_run_inv)

lemma scrape_run_inv: "run_inv w wl ls (scrape_run options wl pc w ls)"
  by (simp add: scrape_run_def fold_complete_run_inv start_run_inv)

lemma scrapeMedicineDetails_None_iff:
  "scrapeMedicineDetails load wl l = None \<longleftrightarrow> (\<exists>e. load Detail (linkUrl l) = Inl e)"
  by (auto simp: scrapeMedicineDetails_def Let_def split: sum.splits)

lemma all_done:
  assumes "list_all (\<lambda>t. t = Done) (tasks r)" "length (tasks r) = length ls"
  shows "in_state Done ls r = {i. i < length ls}"
  using assms by (auto simp: in_state_def list_all_length)

lemma scrape_Returned:
  assumes "scrape options wl pc w = Returned r"
  obtains medicineLinks where
    "getMedicineLinks (indexPage w) = Inr medicineLinks"
    "list_all (\<lambda>t. t = Done)
       (tasks (scrape_run options wl pc w (links_to_process options medicineLinks)))"
    "r = \<lparr>totalMedicines = length medicineLinks,
          scrapedMedicines = length (scraped (scrape_run options wl pc w (links_to_process options medicineLinks))),
          failedMedicines = failed (scrape_run options wl pc w (links_to_process options medicineLinks)),
          medicines = scraped (scrape_run options wl pc w (links_to_process options medicineLinks)),
          scrapedAt = endTime w\<rparr>"
  using assms
  by (auto simp: scrape_def Let_def split: sum.splits if_splits option.splits)

lemma mset_single: "mset xs = {#x#} \<Longrightarrow> xs = [x]"
  by (cases xs) auto

text \<open>
  C2. When \<open>scrape()\<close> returns, \<open>totalMedicines\<close> is the size of the whole catalog,
  the links processed are the catalog cut to the limit, and every one of them has put
  exactly one element into exactly one of the two arrays: the names in
  \<open>failedMedicines\<close> are those of the links whose detail page failed to load, the items
  in \<open>medicines\<close> are those of the links whose detail page loaded, each once, so that
  \<open>scrapedMedicines\<close> plus the number of failed names is the number of links processed.
  For a catalog of three links without a cap, where the detail pages of the first two
  load and that of the third fails, the result has the total 3, 2 scraped items, the name
  of the third link as its only failed name, and 2 item records.
\<close>

theorem scrape_accounting:
  assumes "scrape options wl pc w = Returned r"
  shows "\<exists>medicineLinks ls.
      getMedicineLinks (indexPage w) = Inr medicineLinks \<and>
      ls = links_to_process options medicineLinks \<and>
      totalMedicines r = length medicineLinks \<and>
      length ls \<le> totalMedicines r \<and>
      scrapedMedicines r = length (medicines r) \<and>
      scrapedMedicines r + length (failedMedicines r) = length ls \<and>
      mset (failedMedicines r) =
        image_mset (\<lambda>i. linkName (ls ! i))
          (mset_set {i. i < length ls \<and> (\<exists>e. browser w i Detail (linkUrl (ls ! i)) = Inl e)}) \<and>
      mset (medicines r) =
        image_mset (\<lambda>i. the (scrapeMedicineDetails (browser w i) wl (ls ! i)))
          (mset_set {i. i < length ls \<and> (\<exists>p. browser w i Detail (linkUrl (ls ! i)) = Inr p)}) \<and>
      (\<forall>l1 l2 l3 p1 p2 e.
         medicineLinks = [l1, l2, l3] \<and> (limit options \<le> 0 \<or> 3 \<le> limit options) \<and>
         browser w 0 Detail (linkUrl l1) = Inr p1 \<and>
         browser w 1 Detail (linkUrl l2) = Inr p2 \<and>
         browser w 2 Detail (linkUrl l3) = Inl e \<longrightarrow>
         totalMedicines r = 3 \<and> scrapedMedicines r = 2 \<and>
         failedMedicines r = [linkName l3] \<and> length (medicines r) = 2)"
proof -
  from assms obtain medicineLinks where
    g: "getMedicineLinks (indexPage w) = Inr medicineLinks" and
    d: "list_all (\<lambda>t. t = Done)
       (tasks (scrape_run options wl pc w (links_to_process options medicineLinks)))" and
    r: "r = \<lparr>totalMedicines = length medicineLinks,
          scrapedMedicines = length (scraped (scrape_run options wl pc w (links_to_process options medicineLinks))),
          failedMedicines = failed (scrape_run options wl pc w (links_to_process options medicineLinks)),
          medicines = scraped (scrape_run options wl pc w (links_to_process options medicineLinks)),
          scrapedAt = endTime w\<rparr>"
    by (rule scrape_Returned)
  define ls where "ls = links_to_process options medicineLinks"
  define run where "run = scrape_run options wl pc w ls"
  let ?F = "{i. i < length ls \<and> (\<exists>e. browser w i Detail (linkUrl (ls ! i)) = Inl e)}"
  let ?S = "{i. i < length ls \<and> (\<exists>p. browser w i Detail (linkUrl (ls ! i)) = Inr p)}"
  have inv: "run_inv w wl ls run" unfolding run_def by (rule scrape_run_inv)
  then have len: "length (tasks run) = length ls" by (simp add: run_inv_def)
  with d have dn: "in_state Done ls run = {i. i < length ls}"
    unfolding ls_def [symmetric] run_def [symmetric] by (intro all_done)
  have F: "{i \<in> in_state Done ls run. answer w wl ls i = None} = ?F"
    unfolding dn by (auto simp: answer_def scrapeMedicineDetails_None_iff)
  have S: "{i \<in> in_state Done ls run. answer w wl ls i \<noteq> None} = ?S"
    unfolding dn
    by (auto simp: answer_def scrapeMedicineDetails_None_iff)
       (metis sum.exhaust old.sum.distinct(1))+
  from inv have mf: "mset (failed run) = image_mset (\<lambda>i. linkName (ls ! i)) (mset_set ?F)"
    and ms: "mset (scraped run) = image_mset (\<lambda>i. the (answer w wl ls i)) (mset_set ?S)"
    unfolding run_inv_def F S by simp_all
  have part: "?F \<union> ?S = {i. i < length ls}" "?F \<inter> ?S = {}"
    by auto (metis sum.exhaust)
  have "length (failed run) = card ?F"
    using arg_cong [OF mf, of size] by simp
  moreover have "length (scraped run) = card ?S"
    using arg_cong [OF ms, of size] by simp
  moreover have "card ?F + card ?S = card (?F \<union> ?S)"
    using part(2) by (simp add: card_Un_disjoint)
  ultimately have sum: "length (scraped run) + length (failed run) = length ls"
    by (simp add: part(1))
  have le: "length ls \<le> length medicineLinks"
    by (simp add: ls_def links_to_process_def)
  have r': "totalMedicines r = length medicineLinks" "scrapedMedicines r = length (scraped run)"
    "failedMedicines r = failed run" "medicines r = scraped run"
    by (simp_all add: r run_def ls_def)
  have scen: "totalMedicines r = 3 \<and> scrapedMedicines r = 2 \<and>
         failedMedicines r = [linkName l3] \<and> length (medicines r) = 2"
    if m: "medicineLinks = [l1, l2, l3]" and lim: "limit options \<le> 0 \<or> 3 \<le> limit options"
      and b: "browser w 0 Detail (linkUrl l1) = Inr p1" "browser w 1 Detail (linkUrl l2) = Inr p2"
        "browser w 2 Detail (linkUrl l3) = Inl e"
    for l1 l2 l3 p1 p2 e
  proof -
    from m lim have l: "ls = [l1, l2, l3]"
      by (auto simp: ls_def links_to_process_def)
    have "?F = {2}"
      using b unfolding l by (auto simp: less_Suc_eq numeral_3_eq_3 numeral_2_eq_2)
    with mf have "mset (failed run) = {#linkName l3#}" by (simp add: l)
    then have f: "failed run = [linkName l3]" by (rule mset_single)
    with sum l have "length (scraped run) = 2" by simp
    with f m show ?thesis by (simp add: r')
  qed
  have ms': "mset (medicines r) =
        image_mset (\<lambda>i. the (scrapeMedicineDetails (browser w i) wl (ls ! i))) (mset_set ?S)"
    using ms by (simp add: r' answer_def [abs_def])
  from g le sum mf ms' scen show ?thesis
    unfolding r' ls_def [symmetric] by (intro exI [of _ medicineLinks] exI [of _ ls]) (simp add: ls_def)
qed

lemma sample_links: "getMedicineLinks (indexPage sample_world) = Inr three_links"
  by (simp add: sample_world_def getMedicineLinks_def index_links)

lemma sample_answers:
  "\<exists>m0 m1.
     scrapeMedicineDetails (browser sample_world 0) wl (three_links ! 0) = Some m0 \<and>
     scrapeMedicineDetails (browser sample_world (Suc 0)) wl (three_links ! Suc 0) = Some m1 \<and>
     name m0 = js ''Unknown Medicine'' \<and> name m1 = js ''Unknown Medicine'' \<and>
     scrapeMedicineDetails (browser sample_world 2) wl (three_links ! 2) = None"
  by (simp add: sample_world_def three_links_def scrapeMedicineDetails_def always_def Let_def
      sds_name medicine_name_def empty_page_def cleanText_def or_else_def includes_js.simps js_def startsWith_def)

lemma sample_run:
  "\<exists>m0 m1.
     scrape_run sample_options wl 0 sample_world three_links =
       \<lparr>sem = \<lparr>permits = 2, waitQueue = []\<rparr>, tasks = [Done, Done, Done],
        scraped = [m1, m0], failed = [Some (js ''Paracetamol'')], processedCount = 3,
        progress = [Scraped (js ''Unknown Medicine'') 1 3 1000 2,
                    Scraped (js ''Unknown Medicine'') 2 3 2000 1,
                    Failed (Some (js ''Paracetamol'')) 3 3]\<rparr>"
proof -
  from sample_answers [of wl] obtain m0 m1 where
    a: "scrapeMedicineDetails (browser sample_world 0) wl (three_links ! 0) = Some m0"
       "scrapeMedicineDetails (browser sample_world (Suc 0)) wl (three_links ! Suc 0) = Some m1"
       "scrapeMedicineDetails (browser sample_world 2) wl (three_links ! 2) = None"
    and n: "name m0 = js ''Unknown Medicine''" "name m1 = js ''Unknown Medicine''"
    by blast
  have l: "length three_links = 3" "linkName (three_links ! 2) = Some (js ''Paracetamol'')"
    by (simp_all add: three_links_def)
  have c: "completions sample_world = [(1, 2000), (0, 3000), (2, 4000)]" "startTime sample_world = 1000"
    by (simp_all add: sample_world_def)
  have s: "start_tasks 2 3 0 =
      \<lparr>sem = \<lparr>permits = 0, waitQueue = [2]\<rparr>, tasks = [Running, Running, Waiting],
       scraped = [], failed = [], processedCount = 0, progress = []\<rparr>"
    by (simp add: start_tasks_def admit_task_def acquire_def Semaphore_def numeral_3_eq_3)
  let ?S1 = "\<lparr>sem = \<lparr>permits = 0, waitQueue = []\<rparr>, tasks = [Running, Done, Running],
       scraped = [m1], failed = [], processedCount = 1,
       progress = [Scraped (js ''Unknown Medicine'') 1 3 1000 2]\<rparr>"
  let ?S2 = "\<lparr>sem = \<lparr>permits = 1, waitQueue = []\<rparr>, tasks = [Done, Done, Running],
       scraped = [m1, m0], failed = [], processedCount = 2,
       progress = [Scraped (js ''Unknown Medicine'') 1 3 1000 2,
                   Scraped (js ''Unknown Medicine'') 2 3 2000 1]\<rparr>"
  let ?S3 = "\<lparr>sem = \<lparr>permits = 2, waitQueue = []\<rparr>, tasks = [Done, Done, Done],
        scraped = [m1, m0], failed = [Some (js ''Paracetamol'')], processedCount = 3,
        progress = [Scraped (js ''Unknown Medicine'') 1 3 1000 2,
                    Scraped (js ''Unknown Medicine'') 2 3 2000 1,
                    Failed (Some (js ''Paracetamol'')) 3 3]\<rparr>"
  have s1: "complete_task sample_world wl three_links (1, 2000) (start_tasks 2 3 0) = ?S1"
    unfolding s by (simp add: complete_task_def finish_task_def release_def l c a n Let_def)
  have s2: "complete_task sample_world wl three_links (0, 3000) ?S1 = ?S2"
    by (simp add: complete_task_def finish_task_def release_def l c a n Let_def)
  have s3: "complete_task sample_world wl three_links (2, 4000) ?S2 = ?S3"
    by (simp add: complete_task_def finish_task_def release_def l c a n Let_def)
  have "scrape_run sample_options wl 0 sample_world three_links =
      complete_task sample_world wl three_links (2, 4000)
        (complete_task sample_world wl three_links (0, 3000)
          (complete_task sample_world wl three_links (1, 2000) (start_tasks 2 3 0)))"
    by (simp add: scrape_run_def sample_options_def l c)
  also have "\<dots> = ?S3"
    by (simp only: s1 s2 s3)
  finally have "scrape_run sample_options wl 0 sample_world three_links = ?S3" .
  then show ?thesis by blast
qed

theorem scrape_accounting_witness:
  "\<exists>r. scrape sample_options fallbackWordList 0 sample_world = Returned r \<and>
       totalMedicines r = 3 \<and> scrapedMedicines r = 2 \<and>
       failedMedicines r = [Some (js ''Paracetamol'')] \<and> length (medicines r) = 2 \<and>
       scrapedMedicines r + length (failedMedicines r) = 3"
proof -
  from sample_run [of fallbackWordList] obtain m0 m1 where
    run: "scrape_run sample_options fallbackWordList 0 sample_world three_links =
       \<lparr>sem = \<lparr>permits = 2, waitQueue = []\<rparr>, tasks = [Done, Done, Done],
        scraped = [m1, m0], failed = [Some (js ''Paracetamol'')], processedCount = 3,
        progress = [Scraped (js ''Unknown Medicine'') 1 3 1000 2,
                    Scraped (js ''Unknown Medicine'') 2 3 2000 1,
                    Failed (Some (js ''Paracetamol'')) 3 3]\<rparr>"
    by blast
  have lp: "links_to_process sample_options three_links = three_links"
    by (simp add: links_to_process_def sample_options_def)
  have "\<exists>r. scrape sample_options fallbackWordList 0 sample_world = Returned r"
    by (simp add: scrape_def sample_links lp run Let_def) (simp add: sample_world_def)
  then obtain r where ret: "scrape sample_options fallbackWordList 0 sample_world = Returned r" ..
  from scrape_accounting [OF ret] obtain medicineLinks ls where
    g: "getMedicineLinks (indexPage sample_world) = Inr medicineLinks" and
    ls: "ls = links_to_process sample_options medicineLinks" and
    sum: "scrapedMedicines r + length (failedMedicines r) = length ls" and
    scen: "\<And>l1 l2 l3 p1 p2 e.
         medicineLinks = [l1, l2, l3] \<Longrightarrow> limit sample_options \<le> 0 \<or> 3 \<le> limit sample_options \<Longrightarrow>
         browser sample_world 0 Detail (linkUrl l1) = Inr p1 \<Longrightarrow>
         browser sample_world 1 Detail (linkUrl l2) = Inr p2 \<Longrightarrow>
         browser sample_world 2 Detail (linkUrl l3) = Inl e \<Longrightarrow>
         totalMedicines r = 3 \<and> scrapedMedicines r = 2 \<and>
         failedMedicines r = [linkName l3] \<and> length (medicines r) = 2"
    by blast
  from g have m: "medicineLinks = three_links" by (simp add: sample_links)
  have "totalMedicines r = 3 \<and> scrapedMedicines r = 2 \<and>
         failedMedicines r = [linkName (three_links ! 2)] \<and> length (medicines r) = 2"
    by (rule scen [of "three_links ! 0" "three_links ! 1" _ empty_page empty_page Timeout])
       (simp_all add: m three_links_def sample_options_def sample_world_def always_def)
  moreover from sum ls m lp have "scrapedMedicines r + length (failedMedicines r) = 3"
    by (simp add: three_links_def)
  ultimately show ?thesis using ret by (simp add: three_links_def)
qed

theorem eta_divisor_positive_witness:
  "progress (scrape_run sample_options fallbackWordList 0 sample_world three_links) ! 0 =
     Scraped (js ''Unknown Medicine'') 1 3 1000 2 \<and>
   estimatedTimeRemaining (Scraped (js ''Unknown Medicine'') 1 3 1000 2) = Some 2000 \<and>
   map processed_of (progress (scrape_run sample_options fallbackWordList 0 sample_world three_links)) =
     [1, 2, 3]"
proof -
  let ?r = "scrape_run sample_options fallbackWordList 0 sample_world three_links"
  from sample_run [of fallbackWordList] obtain m0 m1 where
    run: "?r =
       \<lparr>sem = \<lparr>permits = 2, waitQueue = []\<rparr>, tasks = [Done, Done, Done],
        scraped = [m1, m0], failed = [Some (js ''Paracetamol'')], processedCount = 3,
        progress = [Scraped (js ''Unknown Medicine'') 1 3 1000 2,
                    Scraped (js ''Unknown Medicine'') 2 3 2000 1,
                    Failed (Some (js ''Paracetamol'')) 3 3]\<rparr>"
    by blast
  note t = eta_divisor_positive [of sample_options fallbackWordList 0 sample_world three_links]
  have mem: "Scraped (js ''Unknown Medicine'') 1 3 1000 2 \<in> set (progress ?r)"
    by (simp add: run)
  with t have "estimatedTimeRemaining (Scraped (js ''Unknown Medicine'') 1 3 1000 2) =
      Some (of_int 2 * (of_int 1000 / of_nat 1))"
    by blast
  then have e: "estimatedTimeRemaining (Scraped (js ''Unknown Medicine'') 1 3 1000 2) = Some 2000"
    by simp
  from t have "map processed_of (progress ?r) = [Suc 0 ..< Suc 0 + length (progress ?r)]"
    by blast
  then have p: "map processed_of (progress ?r) = [1, 2, 3]"
    by (simp add: run)
  from e p show ?thesis by (simp add: run)
qed

lemma admit_lined_up:
  assumes "lined_up K j 0 r" "permits (sem r) = int K - int (min j K)"
  shows "lined_up K (Suc j) 0 (admit_task j r) \<and>
         permits (sem (admit_task j r)) = int K - int (min (Suc j) K)"
proof (cases "j < K")
  case True
  with assms show ?thesis
    by (auto simp: lined_up_def admit_task_def acquire_def nth_append less_Suc_eq min_def)
next
  case False
  with assms show ?thesis
    by (auto simp: lined_up_def admit_task_def acquire_def nth_append less_Suc_eq min_def)
qed

lemma fold_admit_lined_up:
  "lined_up K 0 0 r \<Longrightarrow> permits (sem r) = int K \<Longrightarrow>
   lined_up K n 0 (fold admit_task [0..<n] r) \<and>
   permits (sem (fold admit_task [0..<n] r)) = int K - int (min n K)"
proof (induction n)
  case 0
  then show ?case by simp
next
  case (Suc n)
  then show ?case by (simp add: admit_lined_up)
qed

lemma start_lined_up: "0 < k \<Longrightarrow> lined_up (nat k) n 0 (start_tasks k n pc)"
proof -
  assume "0 < k"
  let ?r0 = "\<lparr>sem = Semaphore k, tasks = [], scraped = [], failed = [], processedCount = pc,
        progress = []\<rparr>"
  have "lined_up (nat k) 0 0 ?r0" by (simp add: lined_up_def Semaphore_def)
  moreover from \<open>0 < k\<close> have "permits (sem ?r0) = int (nat k)" by (simp add: Semaphore_def)
  ultimately show ?thesis
    unfolding start_tasks_def by (intro conjunct1 [OF fold_admit_lined_up])
qed

lemma finish_lined_up:
  assumes l: "lined_up K n i r" and i: "i < n" and K: "0 < K"
  shows "lined_up K n (Suc i) (finish_task w wl ls i t r)"
proof -
  let ?r' = "finish_task w wl ls i t r"
  from l have len: "length (tasks r) = n"
    and nth: "\<And>j. j < n \<Longrightarrow>
        tasks r ! j = (if j < i then Done else if j < i + K then Running else Waiting)"
    and q: "waitQueue (sem r) = [i + K ..< n]"
    by (simp_all add: lined_up_def)
  show ?thesis
  proof (cases "i + K < n")
    case True
    then have q': "waitQueue (sem r) = (i + K) # [Suc (i + K) ..< n]"
      by (simp only: q upt_conv_Cons)
    have T: "tasks ?r' = (tasks r)[i := Done, i + K := Running]"
      by (simp only: finish_fields q' list.case)
    have Q: "waitQueue (sem ?r') = [Suc i + K ..< n]"
      by (simp add: finish_fields q')
    have "tasks ?r' ! j = (if j < Suc i then Done else if j < Suc i + K then Running else Waiting)"
      if "j < n" for j
      using that nth [OF that] len i K True by (auto simp: T nth_list_update)
    with len Q show ?thesis by (simp add: lined_up_def T)
  next
    case False
    then have q': "waitQueue (sem r) = []" by (simp add: q)
    have T: "tasks ?r' = (tasks r)[i := Done]"
      by (simp only: finish_fields q' list.case)
    have Q: "waitQueue (sem ?r') = [Suc i + K ..< n]"
      using False by (simp add: finish_fields q')
    have "tasks ?r' ! j = (if j < Suc i then Done else if j < Suc i + K then Running else Waiting)"
      if "j < n" for j
      using that nth [OF that] len i K False by (auto simp: T nth_list_update)
    with len Q show ?thesis by (simp add: lined_up_def T)
  qed
qed

lemma complete_lined_up:
  assumes l: "lined_up K n i r" and i: "i < n" and K: "0 < K"
  shows "lined_up K n (Suc i) (complete_task w wl ls (i, t) r)"
proof -
  from l i K have "i < length (tasks r)" "tasks r ! i = Running" by (simp_all add: lined_up_def)
  then have "complete_task w wl ls (i, t) r = finish_task w wl ls i t r"
    by (simp add: complete_task_def)
  with finish_lined_up [OF l i K] show ?thesis by simp
qed

lemma fold_complete_lined_up:
  "lined_up K n 0 r \<Longrightarrow> 0 < K \<Longrightarrow> m \<le> n \<Longrightarrow>
   lined_up K n m (fold (complete_task w wl ls) (map (\<lambda>i. (i, t i)) [0..<m]) r)"
proof (induction m)
  case 0
  then show ?case by simp
next
  case (Suc m)
  then have "lined_up K n m (fold (complete_task w wl ls) (map (\<lambda>i. (i, t i)) [0..<m]) r)"
    by simp
  from complete_lined_up [OF this, of w wl ls "t m"] Suc.prems show ?case by simp
qed

text \<open>
  With at least one permit, an index page that loads and a result that can be written,
  \<open>scrape()\<close> returns when the tasks get their answers in the order of their indices.
\<close>

lemma scrape_returns:
  assumes k: "0 < concurrency options"
    and g: "getMedicineLinks (indexPage w) = Inr medicineLinks"
    and s: "saveResults w = None"
    and c: "completions w = map (\<lambda>i. (i, t i)) [0..<length (links_to_process options medicineLinks)]"
  shows "\<exists>r. scrape options wl pc w = Returned r"
proof -
  let ?ls = "links_to_process options medicineLinks"
  let ?r = "scrape_run options wl pc w ?ls"
  have "lined_up (nat (concurrency options)) (length ?ls) (length ?ls) ?r"
    unfolding scrape_run_def c
    using k by (intro fold_complete_lined_up start_lined_up) simp_all
  then have "list_all (\<lambda>t. t = Done) (tasks ?r)"
    by (simp add: lined_up_def list_all_length)
  with g s show ?thesis by (simp add: scrape_def Let_def)
qed

section \<open>The text chain\<close>

lemma occurs_drop:
  "\<not> occurs m p (c # cs) \<Longrightarrow> \<not> occurs m (Some (last (c # take k cs))) (drop k cs)"
proof (induction k arbitrary: p c cs)
  case 0
  then show ?case by simp
next
  case (Suc k)
  show ?case
  proof (cases cs)
    case Nil
    then show ?thesis by simp
  next
    case (Cons d ds)
    with Suc.prems have "\<not> occurs m (Some c) (d # ds)" by simp
    from Suc.IH [OF this] Cons show ?thesis by simp
  qed
qed

lemma replace_from_id: "\<not> occurs m p s \<Longrightarrow> replace_from m p s = s"
proof (induction m p s rule: replace_from.induct)
  case (1 m p)
  then show ?case by simp
next
  case (2 m p c cs)
  then have n: "m p (c # cs) = None" and o: "\<not> occurs m (Some c) cs"
    by (cases "m p (c # cs)"; simp)+
  from "2.IH"(1) [OF n o] n show ?case by simp
qed

lemma replace_all_id: "\<not> occurs m None s \<Longrightarrow> replace_all m s = s"
  by (simp add: replace_all_def replace_from_id)

lemma spaced_not_space: "spaced p s \<Longrightarrow> \<not> occurs (re_unit (\<lambda>c. c = 160) [32]) p s"
  by (induction p s rule: spaced.induct) (auto simp: re_unit_def is_space_def)

lemma takeWhile_space_spaced:
  "spaced (Some c) cs \<Longrightarrow> is_space c \<Longrightarrow> takeWhile is_space cs = []"
  by (cases cs) auto

lemma replace_spaces_id_aux:
  "m = re_spaces \<Longrightarrow> spaced p s \<Longrightarrow> replace_from m p s = s"
proof (induction m p s rule: replace_from.induct)
  case (1 m p)
  then show ?case by simp
next
  case (2 m p c cs)
  note m = \<open>m = re_spaces\<close>
  from "2.prems" have s: "spaced (Some c) cs" by simp
  show ?case
  proof (cases "is_space c")
    case True
    from "2.prems" True have c: "c = 32" by simp
    from s True have t: "takeWhile is_space cs = []" by (rule takeWhile_space_spaced)
    with True have r: "m p (c # cs) = Some (0, [32])" by (simp add: m re_spaces_def)
    from "2.IH"(2) [OF r refl m] s have "replace_from m (Some c) cs = cs" by simp
    with r c show ?thesis by simp
  next
    case False
    then have r: "m p (c # cs) = None" by (simp add: m re_spaces_def)
    from "2.IH"(1) [OF r m s] r show ?thesis by simp
  qed
qed

lemma replace_spaces_id: "spaced None s \<Longrightarrow> replace_all re_spaces s = s"
  by (simp add: replace_all_def replace_spaces_id_aux)

lemma spaced_last: "spaced p s \<Longrightarrow> s \<noteq> [] \<Longrightarrow> \<not> is_space (last s)"
proof (induction p s rule: spaced.induct)
  case (1 p)
  then show ?case by simp
next
  case (2 p c cs)
  then show ?case by (cases cs) auto
qed

lemma trim_id: "spaced None s \<Longrightarrow> trim s = s"
proof (cases s)
  case Nil
  then show ?thesis by (simp add: trim_def)
next
  case (Cons c cs)
  assume sp: "spaced None s"
  with Cons have "\<not> is_space c" by auto
  with Cons have d: "dropWhile is_space s = s" by simp
  from sp Cons have "\<not> is_space (last s)" by (intro spaced_last [of None]) simp_all
  moreover have "hd (rev s) = last s" by (rule hd_rev)
  ultimately have "\<not> is_space (hd (rev s))" by simp
  moreover from Cons have "rev s \<noteq> []" by simp
  ultimately have "dropWhile is_space (rev s) = rev s" by (cases "rev s") simp_all
  with d show ?thesis by (simp add: trim_def)
qed

lemma replace_from_same:
  "\<forall>p s k r. m p s = Some (k, r) \<longrightarrow> r = take (Suc k) s \<Longrightarrow> replace_from m p s = s"
proof (induction m p s rule: replace_from.induct)
  case (1 m p)
  then show ?case by simp
next
  case (2 m p c cs)
  show ?case
  proof (cases "m p (c # cs)")
    case None
    with "2.IH"(1) "2.prems" show ?thesis by simp
  next
    case (Some a)
    obtain k r where a: "a = (k, r)" by (cases a)
    from Some a have "m p (c # cs) = Some (k, r)" by simp
    with "2.prems" have r: "r = take (Suc k) (c # cs)" by blast
    from "2.IH"(2) [OF Some a [symmetric] "2.prems"] Some a r show ?thesis by simp
  qed
qed

lemma auxiliaries_long: "w \<in> set auxiliaries \<Longrightarrow> 3 \<le> length w"
  by (auto simp: auxiliaries_def js_def)

lemma re_you_same: "re_you p s = Some (k, r) \<Longrightarrow> r = take (Suc k) s"
proof -
  assume a: "re_you p s = Some (k, r)"
  then obtain n b where "after_word (drop 3 s) = Some (n, b)" and k: "k = n + 3"
    and r: "r = fix_you (take (n + 4) s) [b]"
    by (auto simp: re_you_def split: if_splits option.splits)
  have "[b] \<notin> set auxiliaries" using auxiliaries_long [of "[b]"] by auto
  with r k show ?thesis by (simp add: fix_you_def add.commute)
qed

lemma replace_you_id: "replace_all re_you s = s"
  unfolding replace_all_def by (rule replace_from_same) (blast dest: re_you_same)

lemma take_takeWhile: "take (length (takeWhile P xs)) xs = takeWhile P xs"
  by (induction xs) auto

lemma drop_takeWhile: "drop (length (takeWhile P xs)) xs = dropWhile P xs"
  by (induction xs) auto

lemma takeWhile_dropWhile_Nil: "takeWhile P (dropWhile P xs) = []"
  by (induction xs) auto

lemma last_takeWhile: "P c \<Longrightarrow> P (last (c # takeWhile P cs))"
  by (induction cs arbitrary: c) auto

lemma replace_known_id_aux:
  "m = re_run (split_known wl) \<Longrightarrow> \<not> occurs (re_known wl) p s \<Longrightarrow> short_run p s \<Longrightarrow>
   replace_from m p s = s"
proof (induction m p s rule: replace_from.induct)
  case (1 m p)
  then show ?case by simp
next
  case (2 m p c cs)
  note m = \<open>m = re_run (split_known wl)\<close>
  let ?p2 = "takeWhile is_lower cs"
  from "2.prems"(2) have here: "re_known wl p (c # cs) = None"
    and later: "\<not> occurs (re_known wl) (Some c) cs"
    by (cases "re_known wl p (c # cs)"; simp)+
  show ?case
  proof (cases "is_lower c \<and> 3 \<le> length ?p2")
    case True
    then have r: "m p (c # cs) = Some (length ?p2, split_known wl (c # ?p2) c ?p2)"
      by (simp add: m re_run_def Let_def)
    from True "2.prems"(3) have notlow: "\<not> (case p of Some d \<Rightarrow> is_lower d | None \<Rightarrow> False)"
      by (auto simp: short_run_def split: option.splits)
    with here True have "toLowerCase ?p2 \<notin> wl"
      by (auto simp: re_known_def Let_def split: if_splits)
    then have same: "split_known wl (c # ?p2) c ?p2 = c # ?p2"
      by (simp add: split_known_def)
    from True have low: "is_lower (last (c # take (length ?p2) cs))"
      by (simp only: take_takeWhile last_takeWhile)
    have "takeWhile is_lower (drop (length ?p2) cs) = []"
      by (simp add: drop_takeWhile takeWhile_dropWhile_Nil)
    then have sr: "short_run (Some (last (c # take (length ?p2) cs))) (drop (length ?p2) cs)"
      by (simp add: short_run_def)
    from "2.prems"(2) have oc: "\<not> occurs (re_known wl) (Some (last (c # take (length ?p2) cs)))
        (drop (length ?p2) cs)"
      by (rule occurs_drop)
    from "2.IH"(2) [OF r refl m oc sr] r same show ?thesis
      by (simp add: drop_takeWhile)
  next
    case False
    then have r: "m p (c # cs) = None" by (auto simp: m re_run_def Let_def)
    from False have sr: "short_run (Some c) cs" by (auto simp: short_run_def)
    from "2.IH"(1) [OF r m later sr] r show ?thesis by simp
  qed
qed

lemma replace_known_id:
  "\<not> occurs (re_known wl) None s \<Longrightarrow> replace_all (re_run (split_known wl)) s = s"
  by (simp add: replace_all_def replace_known_id_aux short_run_def)

lemma loose_Some: "loose (Some d) s = strict (Some d) s"
proof (induction s arbitrary: d)
  case Nil
  then show ?case by simp
next
  case (Cons c cs)
  then show ?case by simp
qed

lemma loose_None: "loose p s \<Longrightarrow> loose None s"
  by (cases s; cases p) simp_all

lemma loose_start:
  "loose None s \<Longrightarrow> s = [] \<or> \<not> is_space (hd s) \<Longrightarrow> loose p s"
  by (cases s) auto

lemma replace_spaces_start:
  "s = [] \<or> \<not> is_space (hd s) \<Longrightarrow>
   replace_from re_spaces p s = [] \<or> \<not> is_space (hd (replace_from re_spaces p s))"
  by (cases s) (auto simp: re_spaces_def)

lemma dropWhile_start: "dropWhile P s = [] \<or> \<not> P (hd (dropWhile P s))"
  by (induction s) auto

lemma replace_spaces_loose_aux:
  "m = re_spaces \<Longrightarrow> loose None (replace_from m p s)"
proof (induction m p s rule: replace_from.induct)
  case (1 m p)
  then show ?case by simp
next
  case (2 m p c cs)
  note m = \<open>m = re_spaces\<close>
  show ?case
  proof (cases "is_space c")
    case True
    let ?k = "length (takeWhile is_space cs)"
    let ?rest = "replace_from m (Some (last (c # take ?k cs))) (drop ?k cs)"
    from True have r: "m p (c # cs) = Some (?k, [32])" by (simp add: m re_spaces_def)
    from "2.IH"(2) [OF r refl m] have l: "loose None ?rest" .
    have "drop ?k cs = [] \<or> \<not> is_space (hd (drop ?k cs))"
      unfolding drop_takeWhile by (rule dropWhile_start)
    then have "?rest = [] \<or> \<not> is_space (hd ?rest)"
      unfolding m by (rule replace_spaces_start)
    with l have "loose (Some 32) ?rest" by (rule loose_start)
    with r show ?thesis by simp
  next
    case False
    then have r: "m p (c # cs) = None" by (simp add: m re_spaces_def)
    from "2.IH"(1) [OF r m] have "loose None (replace_from m (Some c) cs)" .
    with False have "loose (Some c) (replace_from m (Some c) cs)"
      by (cases "replace_from m (Some c) cs") simp_all
    with r False show ?thesis by simp
  qed
qed

lemma loose_dropWhile: "loose None s \<Longrightarrow> strict None (dropWhile is_space s)"
proof (induction s)
  case Nil
  then show ?case by simp
next
  case (Cons c cs)
  show ?case
  proof (cases "is_space c")
    case True
    from Cons.prems have "loose None cs" by (auto dest: loose_None)
    with Cons.IH True show ?thesis by simp
  next
    case False
    with Cons.prems show ?thesis by (simp add: loose_Some)
  qed
qed

lemma strict_prefix: "strict p (xs @ ys) \<Longrightarrow> strict p xs"
  by (induction xs arbitrary: p) auto

lemma spaced_iff:
  "spaced p s \<longleftrightarrow>
     strict p s \<and> (case (if s = [] then p else Some (last s)) of Some d \<Rightarrow> \<not> is_space d | None \<Rightarrow> True)"
  by (induction s arbitrary: p) auto

lemma trim_spaced: "loose None s \<Longrightarrow> spaced None (trim s)"
proof -
  assume "loose None s"
  then have u: "strict None (dropWhile is_space s)" by (rule loose_dropWhile)
  let ?u = "dropWhile is_space s"
  let ?z = "dropWhile is_space (rev ?u)"
  have "rev ?z @ rev (takeWhile is_space (rev ?u)) = rev (takeWhile is_space (rev ?u) @ ?z)"
    by (simp only: rev_append)
  also have "\<dots> = rev (rev ?u)" by (simp only: takeWhile_dropWhile_id)
  also have "\<dots> = ?u" by (simp only: rev_rev_ident)
  finally have "rev ?z @ rev (takeWhile is_space (rev ?u)) = ?u" .
  with u have "strict None (rev ?z @ rev (takeWhile is_space (rev ?u)))" by (simp only:)
  then have v: "strict None (rev ?z)" by (rule strict_prefix)
  have "?z = [] \<or> \<not> is_space (hd ?z)" by (rule dropWhile_start)
  then have "rev ?z = [] \<or> \<not> is_space (last (rev ?z))" by (auto simp: last_rev)
  with v have "spaced None (rev ?z)" by (auto simp: spaced_iff)
  then show ?thesis by (simp add: trim_def)
qed

lemma spaces_trimmed: "spaced None (trim (replace_all re_spaces s))"
  by (rule trim_spaced) (simp add: replace_all_def replace_spaces_loose_aux)

lemma smartCleanText_id: "settled wl s \<Longrightarrow> smartCleanText wl s = s"
  by (simp add: settled_def smartCleanText_def smartCleanText_passes_def run_passes_def
      replace_all_id spaced_not_space replace_known_id replace_spaces_id trim_id)

lemma enhanceGrammar_id: "settled wl s \<Longrightarrow> enhanceGrammar wl s = s"
  by (simp add: enhanceGrammar_def enhanceGrammar_passes_def run_passes_def smartCleanText_id)
     (simp add: settled_def replace_all_id replace_you_id replace_spaces_id trim_id)

lemma enhanceGrammar_spaced: "spaced None (enhanceGrammar wl s)"
  by (simp add: enhanceGrammar_def enhanceGrammar_passes_def run_passes_def spaces_trimmed)

text \<open>
  C4, as the code has it. A text in which none of the expressions rewritten by
  \<open>smartCleanText\<close> and \<open>enhanceGrammar\<close> occurs is returned unchanged: its white
  space is single ordinary spaces between other code units, it has no dash, none of the
  five boundaries without a space, no run of four or more lowercase letters whose part
  behind the first letter is in the word list, no lowercase letter followed by white
  space and a capitalised word, no conjunctive adverb between lowercase words and no
  \<open>its\<close> before a lowercase word. And whatever the text, the result has white space
  only as single ordinary spaces between other code units: the chain leaves no second
  space beside a space.
\<close>

theorem settled_text_unchanged:
  "(settled wl s \<longrightarrow> enhanceGrammar wl s = s) \<and> spaced None (enhanceGrammar wl s)"
  by (simp add: enhanceGrammar_id enhanceGrammar_spaced)

lemmas settled_eval =
  settled_def re_known_def re_unit_def re_pair_def re_period_def re_comma_def re_its_def
  after_word_def conjunctions_def word_boundary_def is_word_def add_period_def
  js_def startsWith_def toLowerCase_def is_lower_def is_upper_def is_digit_def is_space_def

lemma answer_settled: "settled fallbackWordList (js ''Yes, this is usually safe.'')"
  by (simp add: settled_eval fallbackWordList_def)

theorem settled_text_unchanged_witness:
  "settled fallbackWordList (js ''Yes, this is usually safe.'') \<and>
   enhanceGrammar fallbackWordList (js ''Yes, this is usually safe.'') = js ''Yes, this is usually safe.'' \<and>
   spaced None (enhanceGrammar fallbackWordList (js ''Your doctor may prescribe Zovirax.''))"
  using settled_text_unchanged [of fallbackWordList "js ''Yes, this is usually safe.''"]
    settled_text_unchanged [of fallbackWordList "js ''Your doctor may prescribe Zovirax.''"]
    answer_settled
  by simp

text \<open>
  A sentence with single spaces and a capitalised brand name is changed: the grammar
  pass puts a full stop in front of the name.
\<close>

theorem period_put_into_sentence:
  "spaced None (js ''Your doctor may prescribe Zovirax.'') \<and>
   enhanceGrammar fallbackWordList (js ''Your doctor may prescribe Zovirax.'') =
     js ''Your doctor may prescribe. Zovirax.'' \<and>
   enhanceGrammar fallbackWordList (js ''Your doctor may prescribe Zovirax.'') \<noteq>
     js ''Your doctor may prescribe Zovirax.''"
proof -
  have a: "spaced None (js ''Your doctor may prescribe Zovirax.'')"
    by (simp add: js_def is_space_def)
  have b: "enhanceGrammar fallbackWordList (js ''Your doctor may prescribe Zovirax.'') =
     js ''Your doctor may prescribe. Zovirax.''"
    by (simp add: grammar_eval text_eval fallbackWordList_def)
  have c: "js ''Your doctor may prescribe. Zovirax.'' \<noteq> js ''Your doctor may prescribe Zovirax.''"
    by (simp add: js_def)
  from a b c show ?thesis by simp
qed

end
